theory Spec2Isabelle
  imports Main "HOL-Library.Char_ord" "HOL-Library.List_Lexorder"
begin

section \<open>Daily inventory simulation (SoftBank\_StockCalculate.py)\<close>

text \<open>
  A shallow embedding of \<^verbatim>\<open>calculate_inventory\<close> and of the alias resolution at the head
  of \<^verbatim>\<open>export_to_excel\<close>.

  Conventions of the embedding.
  \<^item> A calendar date is its proleptic Gregorian ordinal (\<^verbatim>\<open>date.toordinal()\<close>), an
    \<open>int\<close>; adding \<^verbatim>\<open>timedelta(days=n)\<close> adds \<open>n\<close>. The day of the run is a valid date
    whose window ends within the range of \<^verbatim>\<open>datetime.date\<close>. The date columns are taken
    after \<^verbatim>\<open>pd.to_datetime(...).dt.date\<close> has succeeded on a date; rows whose date is null
    or does not parse are not covered.
  \<^item> Quantities are whole units, an \<open>int\<close>: the float64 cells of the data frame hold
    them exactly. A null quantity is \<open>None\<close>; the group sums skip it, as pandas does.
    The one property that depends on the order in which cells are added (the order of
    the aliases of a many-to-one group) is stated for any commutative cell addition.
  \<^item> Part numbers are strings that are present. A nullable column the code tests
    (\<^verbatim>\<open>Quotation_status\<close>, \<^verbatim>\<open>Excluded_Part_No\<close>, \<^verbatim>\<open>Month-End_SAP_Inventory\<close>) keeps its
    null.
  \<^item> A data frame is its row labels (\<open>index\<close>) and its columns in order, each a label
    with a series; a series maps a row label to a value.
\<close>

subsection \<open>Dates\<close>

type_synonym date = int

record pydate =
  year :: int
  month :: int
  day :: int

definition is_leap :: "int \<Rightarrow> bool" where
  "is_leap y = (y mod 4 = 0 \<and> (y mod 100 \<noteq> 0 \<or> y mod 400 = 0))"

definition days_before_year :: "int \<Rightarrow> int" where
  "days_before_year y = (let y' = y - 1 in y' * 365 + y' div 4 - y' div 100 + y' div 400)"

definition days_before_month :: "int \<Rightarrow> int \<Rightarrow> int" where
  "days_before_month y m =
     [0, 31, 59, 90, 120, 151, 181, 212, 243, 273, 304, 334] ! nat (m - 1)
       + (if m > 2 \<and> is_leap y then 1 else 0)"

definition ymd2ord :: "int \<Rightarrow> int \<Rightarrow> int \<Rightarrow> date" where
  "ymd2ord y m d = days_before_year y + days_before_month y m + d"

definition toordinal :: "pydate \<Rightarrow> date" where
  "toordinal t = ymd2ord (year t) (month t) (day t)"

text \<open>\<^verbatim>\<open>start_date = datetime.today().replace(day=1).date()\<close>\<close>

definition start_date :: "pydate \<Rightarrow> date" where
  "start_date today = toordinal (today\<lparr>day := 1\<rparr>)"

text \<open>\<^verbatim>\<open>end_date = start_date + timedelta(days=180)\<close>\<close>

definition end_date :: "pydate \<Rightarrow> date" where
  "end_date today = start_date today + 180"

text \<open>\<^verbatim>\<open>pd.date_range(start=start_date, end=end_date).date\<close>: every day, both ends included.\<close>

definition date_range :: "date \<Rightarrow> date \<Rightarrow> date list" where
  "date_range s e = [s..e]"

subsection \<open>Input tables\<close>

text \<open>\<^verbatim>\<open>SELECT Part_No, eta_FLTC, Qty, Status FROM SoftBank_Data_FactoryShipment\<close>\<close>

record factory_row =
  Part_No :: string
  eta_FLTC :: date
  Qty :: "int option"
  Status :: "string option"

text \<open>\<^verbatim>\<open>SELECT Product_Name, COALESCE(...) AS Shipment_Date, Quantity, Quotation_status\<close>\<close>

record order_row =
  Product_Name :: string
  Shipment_Date :: date
  Quantity :: "int option"
  Quotation_status :: "string option"

text \<open>
  A cell of \<^verbatim>\<open>Month-End_SAP_Inventory\<close>: null (\<^verbatim>\<open>pd.notna\<close> is false), a value that
  \<^verbatim>\<open>float()\<close> converts to a whole number, or a value on which \<^verbatim>\<open>float()\<close> raises
  ValueError or TypeError (the \<^verbatim>\<open>except\<close> branch of source line 97).
\<close>

datatype sap_inventory = Null | Number int | NonNumeric

text \<open>\<^verbatim>\<open>SELECT Delta_PartNO AS Part_No, [Month-End_SAP_Inventory], Model\<close>\<close>

record product_row =
  Delta_PartNO :: string
  Month_End_SAP_Inventory :: sap_inventory
  Model :: "string option"

subsection \<open>Data frames\<close>

type_synonym series = "date \<Rightarrow> int"

record frame =
  index :: "date list"
  columns :: "(string \<times> series) list"

text \<open>\<^verbatim>\<open>part in df.columns\<close>\<close>

definition has_column :: "frame \<Rightarrow> string \<Rightarrow> bool" where
  "has_column df p = (p \<in> set (map fst (columns df)))"

text \<open>\<^verbatim>\<open>df[p]\<close>, \<open>None\<close> where pandas raises KeyError.\<close>

definition column :: "frame \<Rightarrow> string \<Rightarrow> series option" where
  "column df p = map_of (columns df) p"

text \<open>
  \<^verbatim>\<open>df.loc[d]\<close> read at label \<open>p\<close>. The frames of \<^verbatim>\<open>calculate_inventory\<close> all carry the
  column labels \<^verbatim>\<open>products\<close>, so the row arithmetic there never meets a missing label.
\<close>

definition loc :: "frame \<Rightarrow> date \<Rightarrow> string \<Rightarrow> int" where
  "loc df d p = (case column df p of Some s \<Rightarrow> s d | None \<Rightarrow> 0)"

text \<open>\<^verbatim>\<open>pd.DataFrame(index=idx, columns=cols, data=0.0)\<close>\<close>

definition zeros :: "date list \<Rightarrow> string list \<Rightarrow> frame" where
  "zeros idx cols = \<lparr>index = idx, columns = map (\<lambda>p. (p, \<lambda>_. 0)) cols\<rparr>"

text \<open>\<^verbatim>\<open>df.loc[d, p] = v\<close> on labels the frame has.\<close>

definition set_cell :: "frame \<Rightarrow> date \<Rightarrow> string \<Rightarrow> int \<Rightarrow> frame" where
  "set_cell df d p v =
     df\<lparr>columns := map (\<lambda>(c, s). if c = p then (c, s(d := v)) else (c, s)) (columns df)\<rparr>"

text \<open>\<^verbatim>\<open>df.loc[d] = row\<close>, the row a series over the column labels.\<close>

definition set_row :: "frame \<Rightarrow> date \<Rightarrow> (string \<Rightarrow> int) \<Rightarrow> frame" where
  "set_row df d row = df\<lparr>columns := map (\<lambda>(c, s). (c, s(d := row c))) (columns df)\<rparr>"

text \<open>\<^verbatim>\<open>Series.unique()\<close>: the values in order of first appearance.\<close>

fun unique :: "'a list \<Rightarrow> 'a list" where
  "unique [] = []"
| "unique (x # xs) = x # unique (filter (\<lambda>y. y \<noteq> x) xs)"

subsection \<open>\<^verbatim>\<open>calculate_inventory\<close>\<close>

definition excluded_statuses :: "string list" where
  "excluded_statuses = [''quotation'', ''cancel'', ''confirming'', ''double cancel'']"

text \<open>\<^verbatim>\<open>Series.isin\<close> on one cell: a null is in no list of strings.\<close>

definition isin :: "string option \<Rightarrow> string list \<Rightarrow> bool" where
  "isin v xs = (case v of None \<Rightarrow> False | Some s \<Rightarrow> s \<in> set xs)"

text \<open>The order filter (source lines 65 to 68).\<close>

definition filter_orders :: "date \<Rightarrow> order_row list \<Rightarrow> order_row list" where
  "filter_orders start order_data =
     filter (\<lambda>r. Shipment_Date r \<ge> start \<and> \<not> isin (Quotation_status r) excluded_statuses)
       order_data"

text \<open>\<^verbatim>\<open>products = product_data['Part_No'].unique()\<close>\<close>

definition products_of :: "product_row list \<Rightarrow> string list" where
  "products_of product_data = unique (map Delta_PartNO product_data)"

text \<open>\<^verbatim>\<open>product_data.dropna(subset=['Part_No', 'Month-End_SAP_Inventory'])\<close>\<close>

definition dropna :: "product_row list \<Rightarrow> product_row list" where
  "dropna product_data = filter (\<lambda>r. Month_End_SAP_Inventory r \<noteq> Null) product_data"

text \<open>\<^verbatim>\<open>drop_duplicates(subset=['Part_No'], keep='first')\<close>\<close>

fun drop_duplicates :: "product_row list \<Rightarrow> product_row list" where
  "drop_duplicates [] = []"
| "drop_duplicates (r # rs) =
     r # drop_duplicates (filter (\<lambda>r'. Delta_PartNO r' \<noteq> Delta_PartNO r) rs)"

definition clean_product_data :: "product_row list \<Rightarrow> product_row list" where
  "clean_product_data product_data = drop_duplicates (dropna product_data)"

text \<open>The body of the loop over \<^verbatim>\<open>products\<close> (source lines 88 to 100): the value stored at
  \<^verbatim>\<open>inventory.loc[start_date, product]\<close>.\<close>

definition initial_qty :: "product_row list \<Rightarrow> string \<Rightarrow> int" where
  "initial_qty clean product =
     (case filter (\<lambda>r. Delta_PartNO r = product) clean of
        [] \<Rightarrow> 0
      | r # _ \<Rightarrow>
          (case Month_End_SAP_Inventory r of
             Number q \<Rightarrow> q
           | Null \<Rightarrow> 0
           | NonNumeric \<Rightarrow> 0))"

text \<open>The inventory frame after the initial stock is set (source lines 75 to 100).\<close>

definition initial_inventory :: "date list \<Rightarrow> date \<Rightarrow> product_row list \<Rightarrow> frame" where
  "initial_inventory dates start product_data =
     (let products = products_of product_data;
          clean = clean_product_data product_data
      in foldl (\<lambda>inventory product. set_cell inventory start product (initial_qty clean product))
           (zeros dates products) products)"

text \<open>\<^verbatim>\<open>groupby([date, part])[qty].sum()\<close> read at one key: the sum of the group's
  quantities, nulls skipped; 0 for a key with no row.\<close>

definition group_sum :: "(date \<times> string \<times> int option) list \<Rightarrow> date \<Rightarrow> string \<Rightarrow> int" where
  "group_sum rows d p =
     sum_list (map (\<lambda>(d', p', q). case q of Some n \<Rightarrow> n | None \<Rightarrow> 0)
       (filter (\<lambda>(d', p', q). d' = d \<and> p' = p) rows))"

text \<open>\<^verbatim>\<open>.unstack(fill_value=0).reindex(columns=products, index=date_range, fill_value=0)\<close>\<close>

definition aggregate :: "(date \<times> string \<times> int option) list \<Rightarrow> date list \<Rightarrow> string list \<Rightarrow> frame" where
  "aggregate rows dates products =
     \<lparr>index = dates,
      columns = map (\<lambda>p. (p, \<lambda>d. if d \<in> set dates then group_sum rows d p else 0)) products\<rparr>"

definition factory_agg :: "factory_row list \<Rightarrow> date list \<Rightarrow> string list \<Rightarrow> frame" where
  "factory_agg factory_data dates products =
     (let valid_factory_data = filter (\<lambda>r. Part_No r \<in> set products) factory_data
      in if valid_factory_data \<noteq> []
         then aggregate (map (\<lambda>r. (eta_FLTC r, Part_No r, Qty r)) valid_factory_data) dates products
         else zeros dates products)"

definition order_agg :: "order_row list \<Rightarrow> date list \<Rightarrow> string list \<Rightarrow> frame" where
  "order_agg order_data dates products =
     (if order_data \<noteq> []
      then aggregate (map (\<lambda>r. (Shipment_Date r, Product_Name r, Quantity r)) order_data) dates products
      else zeros dates products)"

text \<open>One turn of the loop over \<^verbatim>\<open>enumerate(date_range)\<close> (source lines 132 to 143).\<close>

definition roll_step :: "frame \<Rightarrow> frame \<Rightarrow> date list \<Rightarrow> frame \<Rightarrow> nat \<times> date \<Rightarrow> frame" where
  "roll_step f_agg o_agg dates inventory ic =
     (case ic of (i, current_date) \<Rightarrow>
        if i = 0
        then set_row inventory current_date
               (\<lambda>p. loc inventory current_date p + loc f_agg current_date p - loc o_agg current_date p)
        else (let prev_date = dates ! (i - 1)
              in set_row inventory current_date
                   (\<lambda>p. loc inventory prev_date p + loc f_agg current_date p - loc o_agg current_date p)))"

definition roll_forward :: "frame \<Rightarrow> frame \<Rightarrow> date list \<Rightarrow> frame \<Rightarrow> frame" where
  "roll_forward f_agg o_agg dates inventory =
     foldl (roll_step f_agg o_agg dates) inventory (List.enumerate 0 dates)"

definition calculate_inventory ::
  "pydate \<Rightarrow> factory_row list \<Rightarrow> order_row list \<Rightarrow> product_row list \<Rightarrow> frame" where
  "calculate_inventory today factory_data order_data product_data =
     (let dates = date_range (start_date today) (end_date today);
          order_data' = filter_orders (start_date today) order_data;
          products = products_of product_data;
          inventory = initial_inventory dates (start_date today) product_data
      in roll_forward (factory_agg factory_data dates products)
           (order_agg order_data' dates products) dates inventory)"

text \<open>The two aggregates of the claims: what arrives and what leaves for a part on a day.\<close>

definition inbound :: "factory_row list \<Rightarrow> date \<Rightarrow> string \<Rightarrow> int" where
  "inbound factory_data d p = group_sum (map (\<lambda>r. (eta_FLTC r, Part_No r, Qty r)) factory_data) d p"

definition outbound :: "pydate \<Rightarrow> order_row list \<Rightarrow> date \<Rightarrow> string \<Rightarrow> int" where
  "outbound today order_data d p =
     group_sum (map (\<lambda>r. (Shipment_Date r, Product_Name r, Quantity r))
       (filter_orders (start_date today) order_data)) d p"

subsection \<open>Alias resolution in \<^verbatim>\<open>export_to_excel\<close>\<close>

text \<open>
  The three loops at the head of \<^verbatim>\<open>export_to_excel\<close> (source lines 164 to 189) rewrite
  the columns of \<^verbatim>\<open>inventory\<close>; what follows them (the transposition, the \<^verbatim>\<open>Model\<close>
  column, the workbook styling) computes no balance. The mapping workbook is passed in:
  the sheet \<^verbatim>\<open>Exclude\<close> as its column \<^verbatim>\<open>Excluded_Part_No\<close>, the sheet \<^verbatim>\<open>OneToOne\<close> as
  its rows \<open>(Free_Part_No, Main_Part_No)\<close>, the sheet \<^verbatim>\<open>ManyToOne\<close> as its rows
  \<open>(Main_Part_No, Alias_Part_No)\<close>.
\<close>

text \<open>\<^verbatim>\<open>inventory.drop(columns=[p], inplace=True, errors='ignore')\<close>\<close>

definition drop_column :: "frame \<Rightarrow> string \<Rightarrow> frame" where
  "drop_column df p = df\<lparr>columns := filter (\<lambda>(c, s). c \<noteq> p) (columns df)\<rparr>"

text \<open>\<^verbatim>\<open>inventory[p] = s\<close>: an existing column is replaced in place, a new one is appended.\<close>

definition set_column :: "frame \<Rightarrow> string \<Rightarrow> series \<Rightarrow> frame" where
  "set_column df p s =
     (if has_column df p
      then df\<lparr>columns := map (\<lambda>(c, s'). if c = p then (c, s) else (c, s')) (columns df)\<rparr>
      else df\<lparr>columns := columns df @ [(p, s)]\<rparr>)"

text \<open>\<^verbatim>\<open>inventory.rename(columns={old: new}, inplace=True)\<close>\<close>

definition rename_column :: "frame \<Rightarrow> string \<Rightarrow> string \<Rightarrow> frame" where
  "rename_column df old new =
     df\<lparr>columns := map (\<lambda>(c, s). if c = old then (new, s) else (c, s)) (columns df)\<rparr>"

text \<open>\<^verbatim>\<open>excluded_df['Excluded_Part_No'].dropna().tolist()\<close>\<close>

definition excluded_parts :: "string option list \<Rightarrow> string list" where
  "excluded_parts excluded_df = List.map_filter (\<lambda>x. x) excluded_df"

definition exclude_part :: "frame \<Rightarrow> string \<Rightarrow> frame" where
  "exclude_part inventory part_no =
     (if has_column inventory part_no then drop_column inventory part_no else inventory)"

definition exclude :: "frame \<Rightarrow> string option list \<Rightarrow> frame" where
  "exclude inventory excluded_df = foldl exclude_part inventory (excluded_parts excluded_df)"

text \<open>The body of the loop over the rows of \<^verbatim>\<open>OneToOne\<close> (source lines 173 to 179).\<close>

definition one_to_one_rule :: "frame \<Rightarrow> string \<times> string \<Rightarrow> frame" where
  "one_to_one_rule inventory row =
     (case row of (free_part, main_part) \<Rightarrow>
        (case column inventory free_part of
           None \<Rightarrow> inventory
         | Some free_series \<Rightarrow>
             drop_column
               (case column inventory main_part of
                  Some main_series \<Rightarrow>
                    set_column inventory main_part (\<lambda>d. main_series d + free_series d)
                | None \<Rightarrow> rename_column inventory free_part main_part)
               free_part))"

definition one_to_one :: "frame \<Rightarrow> (string \<times> string) list \<Rightarrow> frame" where
  "one_to_one inventory one_to_one_df = foldl one_to_one_rule inventory one_to_one_df"

text \<open>The body of the loop over one group's \<^verbatim>\<open>Alias_Part_No\<close> (source lines 184 to 189).\<close>

definition many_to_one_alias :: "string \<Rightarrow> frame \<Rightarrow> string \<Rightarrow> frame" where
  "many_to_one_alias main_part inventory alias_part =
     (case column inventory alias_part of
        None \<Rightarrow> inventory
      | Some alias_series \<Rightarrow>
          drop_column
            (case column inventory main_part of
               Some main_series \<Rightarrow>
                 set_column inventory main_part (\<lambda>d. main_series d + alias_series d)
             | None \<Rightarrow> set_column inventory main_part alias_series)
            alias_part)"

definition many_to_one_group :: "frame \<Rightarrow> string \<times> string list \<Rightarrow> frame" where
  "many_to_one_group inventory g =
     (case g of (main_part, aliases) \<Rightarrow> foldl (many_to_one_alias main_part) inventory aliases)"

text \<open>
  Source line 186 adds float64 cells, and that addition rounds: it is commutative and not
  associative. Where a property depends on the order of the additions, the loop body
  over one group's aliases is taken on the columns alone with the cell addition \<open>add\<close> as
  a parameter; at \<open>(+)\<close> on whole units it is \<open>many_to_one_alias\<close>.
\<close>

definition many_to_one_alias_with ::
  "('v \<Rightarrow> 'v \<Rightarrow> 'v) \<Rightarrow> string \<Rightarrow> (string \<times> (date \<Rightarrow> 'v)) list \<Rightarrow> string
     \<Rightarrow> (string \<times> (date \<Rightarrow> 'v)) list" where
  "many_to_one_alias_with add main_part cols alias_part =
     (case map_of cols alias_part of
        None \<Rightarrow> cols
      | Some alias_series \<Rightarrow>
          filter (\<lambda>(c, s). c \<noteq> alias_part)
            (case map_of cols main_part of
               Some main_series \<Rightarrow>
                 map (\<lambda>(c, s). if c = main_part
                        then (c, \<lambda>d. add (main_series d) (alias_series d)) else (c, s)) cols
             | None \<Rightarrow> cols @ [(main_part, alias_series)]))"

definition many_to_one_group_with ::
  "('v \<Rightarrow> 'v \<Rightarrow> 'v) \<Rightarrow> (string \<times> (date \<Rightarrow> 'v)) list \<Rightarrow> string \<times> string list
     \<Rightarrow> (string \<times> (date \<Rightarrow> 'v)) list" where
  "many_to_one_group_with add cols g =
     (case g of (main_part, aliases) \<Rightarrow> foldl (many_to_one_alias_with add main_part) cols aliases)"

text \<open>\<^verbatim>\<open>many_to_one_df.groupby('Main_Part_No')\<close>: the groups by ascending key, each with
  its \<^verbatim>\<open>Alias_Part_No\<close> in row order.\<close>

definition groupby :: "(string \<times> string) list \<Rightarrow> (string \<times> string list) list" where
  "groupby many_to_one_df =
     map (\<lambda>m. (m, map snd (filter (\<lambda>(m', a). m' = m) many_to_one_df)))
       (sort (unique (map fst many_to_one_df)))"

definition many_to_one :: "frame \<Rightarrow> (string \<times> string) list \<Rightarrow> frame" where
  "many_to_one inventory many_to_one_df = foldl many_to_one_group inventory (groupby many_to_one_df)"

text \<open>The inventory when the three loops are done (source line 190).\<close>

definition export_to_excel ::
  "frame \<Rightarrow> (string \<times> string) list \<Rightarrow> (string \<times> string) list \<Rightarrow> string option list \<Rightarrow> frame" where
  "export_to_excel inventory one_to_one_df many_to_one_df excluded_df =
     many_to_one (one_to_one (exclude inventory excluded_df) one_to_one_df) many_to_one_df"

subsection \<open>Readings of the specification\<close>

text \<open>The starting quantity as the specification words it: the quantity of the first
  starting-inventory record of the part in input order, 0 when the part has no record or
  when that record's quantity is missing or not a number.\<close>

definition first_record_quantity :: "product_row list \<Rightarrow> string \<Rightarrow> int" where
  "first_record_quantity product_data p =
     (case find (\<lambda>r. Delta_PartNO r = p) product_data of
        None \<Rightarrow> 0
      | Some r \<Rightarrow> (case Month_End_SAP_Inventory r of Number q \<Rightarrow> q | Null \<Rightarrow> 0 | NonNumeric \<Rightarrow> 0))"

text \<open>The starting quantity as \<^verbatim>\<open>dropna\<close> before \<^verbatim>\<open>drop_duplicates\<close> computes it: the
  quantity of the first record of the part whose quantity is not null.\<close>

definition first_valued_record_quantity :: "product_row list \<Rightarrow> string \<Rightarrow> int" where
  "first_valued_record_quantity product_data p =
     (case find (\<lambda>r. Delta_PartNO r = p \<and> Month_End_SAP_Inventory r \<noteq> Null) product_data of
        None \<Rightarrow> 0
      | Some r \<Rightarrow> (case Month_End_SAP_Inventory r of Number q \<Rightarrow> q | Null \<Rightarrow> 0 | NonNumeric \<Rightarrow> 0))"

text \<open>Every rule of the two sheets as a pair \<open>(free or alias, main)\<close>.\<close>

definition rule_pairs :: "(string \<times> string) list \<Rightarrow> (string \<times> string) list \<Rightarrow> (string \<times> string) list" where
  "rule_pairs one_to_one_df many_to_one_df = one_to_one_df @ map (\<lambda>(m, a). (a, m)) many_to_one_df"

text \<open>The free and alias part numbers the rules name for the main part number \<open>m\<close>.\<close>

definition contributors :: "(string \<times> string) list \<Rightarrow> string \<Rightarrow> string list" where
  "contributors rules m = unique (map fst (filter (\<lambda>(a, m'). m' = m) rules))"

text \<open>The column of a main part number as the specification words it: its own column of
  \<open>base\<close> (if present) plus the columns of \<open>base\<close> of its free and alias part numbers.\<close>

definition expected_main_column :: "frame \<Rightarrow> (string \<times> string) list \<Rightarrow> string \<Rightarrow> date \<Rightarrow> int" where
  "expected_main_column base rules m d =
     loc base d m + sum_list (map (loc base d) (contributors rules m))"

text \<open>A rule set, as pairs \<open>(free or alias, main)\<close>, in which no part number that is folded
  away is also a main part number, and no part number is folded into two main part numbers.\<close>

definition consistent_rules :: "(string \<times> string) list \<Rightarrow> bool" where
  "consistent_rules rules =
     (\<forall>(a, m)\<in>set rules. a \<notin> snd ` set rules \<and> (\<forall>(a', m')\<in>set rules. a' = a \<longrightarrow> m' = m))"

subsection \<open>The columns as a map\<close>

text \<open>The effect of one merge rule on the columns, read as a map from label to series:
  the series of \<open>a\<close>, when there is one, is added to that of \<open>m\<close> (or becomes it), and the
  label \<open>a\<close> is removed.\<close>

definition fold_into :: "(string \<rightharpoonup> series) \<Rightarrow> string \<times> string \<Rightarrow> (string \<rightharpoonup> series)" where
  "fold_into cols am =
     (case am of (a, m) \<Rightarrow>
        (case cols a of
           None \<Rightarrow> cols
         | Some s \<Rightarrow>
             (cols(m \<mapsto> (case cols m of Some t \<Rightarrow> (\<lambda>d. t d + s d) | None \<Rightarrow> s)))(a := None)))"


text \<open>The \<open>(alias, main)\<close> pairs of the many-to-one sheet in the order the loop over the
  groups visits them.\<close>

definition many_to_one_pairs :: "(string \<times> string) list \<Rightarrow> (string \<times> string) list" where
  "many_to_one_pairs many_to_one_df =
     concat (map (\<lambda>(m, aliases). map (\<lambda>a. (a, m)) aliases) (groupby many_to_one_df))"

text \<open>A column that may be missing, read as a series: a missing column counts 0 on every date.\<close>

definition series_of :: "series option \<Rightarrow> series" where
  "series_of so = (case so of None \<Rightarrow> (\<lambda>_. 0) | Some s \<Rightarrow> s)"

text \<open>The column \<open>k\<close> once every pair \<open>(a, k)\<close> of \<open>rs\<close> has added the column \<open>a\<close> of \<open>c0\<close> to it:
  missing when neither \<open>k\<close> nor any such \<open>a\<close> is a column of \<open>c0\<close>.\<close>

definition merged :: "(string \<rightharpoonup> series) \<Rightarrow> (string \<times> string) list \<Rightarrow> string \<Rightarrow> series option" where
  "merged c0 rs k =
     (if c0 k \<noteq> None \<or> (\<exists>a. (a, k) \<in> set rs \<and> c0 a \<noteq> None)
      then Some (\<lambda>d. series_of (c0 k) d + (\<Sum>a\<in>{a. (a, k) \<in> set rs}. series_of (c0 a) d))
      else None)"

subsection \<open>Example data\<close>

text \<open>A run on 4 November 2026: the window starts on 1 November 2026, ordinal 739921.\<close>

definition today0 :: pydate where
  "today0 = \<lparr>year = 2026, month = 11, day = 4\<rparr>"

text \<open>A small matrix for the examples: three parts with constant balances 1, 10 and 100.\<close>

definition matrix0 :: frame where
  "matrix0 = \<lparr>index = [739921, 739922],
     columns = [(''A'', \<lambda>_. 1), (''B'', \<lambda>_. 10), (''C'', \<lambda>_. 100)]\<rparr>"

text \<open>An addition that rounds down to a multiple of ten: commutative, not associative.\<close>

definition tens_add :: "int \<Rightarrow> int \<Rightarrow> int" where
  "tens_add x y = (x + y) div 10 * 10"

section \<open>Properties\<close>

subsection \<open>The date axis\<close>

lemma upto_as_map: "[s..s + int n] = map (\<lambda>i. s + int i) [0..<Suc n]"
proof (induction n)
  case 0
  show ?case by simp
next
  case (Suc n)
  have "[s..s + int (Suc n)] = [s..s + int n] @ [s + int (Suc n)]"
    using upto_rec2 [of s "s + int (Suc n)"] by (simp add: add.commute)
  with Suc show ?case by simp
qed

lemma index_set_cell [simp]: "index (set_cell df d p v) = index df"
  by (simp add: set_cell_def)

lemma index_set_row [simp]: "index (set_row df d r) = index df"
  by (simp add: set_row_def)

lemma index_zeros [simp]: "index (zeros idx cols) = idx"
  by (simp add: zeros_def)

lemma index_foldl_set_cell:
  "index (foldl (\<lambda>inventory product. set_cell inventory d product (g product)) df ps) = index df"
  by (induction ps arbitrary: df) simp_all

lemma index_initial_inventory [simp]: "index (initial_inventory dates s product_data) = dates"
  by (simp add: initial_inventory_def Let_def index_foldl_set_cell)

lemma index_roll_step [simp]: "index (roll_step fa oa dates df ic) = index df"
  by (cases ic) (simp add: roll_step_def Let_def)

lemma index_roll_forward [simp]: "index (roll_forward fa oa dates df) = index df"
proof -
  have "index (foldl (roll_step fa oa dates) df xs) = index df" for xs
    by (induction xs arbitrary: df) simp_all
  then show ?thesis by (simp add: roll_forward_def)
qed

lemma index_calculate_inventory [simp]:
  "index (calculate_inventory today fd od pd) = date_range (start_date today) (end_date today)"
  by (simp add: calculate_inventory_def Let_def)

text \<open>
  Claim C4. Whatever the shipment, order and product tables hold, the row labels of the
  balance matrix are the 181 consecutive days from the window start to the window start
  plus 180, and the window start is day 1 of the month and year of the run,
  \<open>day today - 1\<close> days before the day of the run.
\<close>

theorem date_axis_181_days:
  "index (calculate_inventory today factory_data order_data product_data)
     = map (\<lambda>i. start_date today + int i) [0..<181]
   \<and> length (index (calculate_inventory today factory_data order_data product_data)) = 181
   \<and> start_date today = ymd2ord (year today) (month today) 1
   \<and> toordinal today - start_date today = day today - 1"
proof -
  have "[start_date today..start_date today + int 180] = map (\<lambda>i. start_date today + int i) [0..<Suc 180]"
    by (rule upto_as_map)
  then have "date_range (start_date today) (end_date today) = map (\<lambda>i. start_date today + int i) [0..<181]"
    by (simp add: date_range_def end_date_def)
  then show ?thesis
    by (simp add: index_calculate_inventory start_date_def toordinal_def ymd2ord_def)
qed

lemma start_date_today0: "start_date today0 = 739921"
  by (simp add: today0_def start_date_def toordinal_def ymd2ord_def days_before_year_def
      days_before_month_def is_leap_def)

theorem date_axis_181_days_witness:
  "index (calculate_inventory today0 [] [] []) = map (\<lambda>i. 739921 + int i) [0..<181]
   \<and> hd (index (calculate_inventory today0 [] [] [])) = 739921
   \<and> last (index (calculate_inventory today0 [] [] [])) = 740101"
  using date_axis_181_days [of today0 "[]" "[]" "[]"]
  unfolding start_date_today0 by (simp add: hd_map last_map upt_rec [of 0])

subsection \<open>The roll-forward\<close>

lemma names_set_row [simp]: "map fst (columns (set_row df d r)) = map fst (columns df)"
  by (simp add: set_row_def case_prod_unfold)

lemma names_set_cell [simp]: "map fst (columns (set_cell df d p v)) = map fst (columns df)"
proof -
  have "map fst (map (\<lambda>(c, s). if c = p then (c, s(d := v)) else (c, s)) cs) = map fst cs" for cs
    by (induction cs) auto
  then show ?thesis by (simp add: set_cell_def)
qed

lemma map_of_relabel:
  "map_of (map (\<lambda>(c, s). (c, g c s)) cs) p = map_option (g p) (map_of cs p)"
  by (induction cs) auto

lemma column_set_row:
  "column (set_row df d r) p = map_option (\<lambda>s. s(d := r p)) (column df p)"
  using map_of_relabel [of "\<lambda>c s. s(d := r c)" "columns df" p]
  by (simp add: column_def set_row_def)

lemma column_set_cell:
  "column (set_cell df d q v) p = map_option (\<lambda>s. if p = q then s(d := v) else s) (column df p)"
proof -
  have "(\<lambda>(c, s). if c = q then (c, s(d := v)) else (c, s))
          = (\<lambda>(c, s). (c, if c = q then s(d := v) else s))"
    by (auto simp: fun_eq_iff)
  then show ?thesis
    using map_of_relabel [of "\<lambda>c s. if c = q then s(d := v) else s" "columns df" p]
    by (simp add: column_def set_cell_def)
qed

lemma has_column_iff: "has_column df p \<longleftrightarrow> column df p \<noteq> None"
  by (simp add: has_column_def column_def map_of_eq_None_iff)

lemma has_column_names:
  "map fst (columns df) = map fst (columns df') \<Longrightarrow> has_column df p = has_column df' p"
  by (simp add: has_column_def)

lemma loc_set_row:
  "loc (set_row df d r) d' p = (if d' = d \<and> has_column df p then r p else loc df d' p)"
  by (auto simp: loc_def column_set_row has_column_iff split: option.splits)

lemma loc_set_cell:
  "loc (set_cell df d q v) d' p = (if d' = d \<and> p = q \<and> has_column df p then v else loc df d' p)"
  by (auto simp: loc_def column_set_cell has_column_iff split: option.splits)

lemma enumerate_take_Suc:
  "k < length xs \<Longrightarrow> List.enumerate 0 (take (Suc k) xs) = List.enumerate 0 (take k xs) @ [(k, xs ! k)]"
  by (simp add: take_Suc_conv_app_nth enumerate_append_eq)

lemma names_roll_step [simp]:
  "map fst (columns (roll_step fa oa dates df ic)) = map fst (columns df)"
  by (cases ic) (simp add: roll_step_def Let_def)

lemma names_foldl_roll_step [simp]:
  "map fst (columns (foldl (roll_step fa oa dates) df xs)) = map fst (columns df)"
  by (induction xs arbitrary: df) simp_all

text \<open>The balances after the first \<open>k\<close> turns of the loop, in closed form.\<close>

lemma roll_prefix:
  assumes dates: "dates = map (\<lambda>i. s + int i) [0..<n]" and p: "has_column inv0 p"
  shows "k \<le> n \<Longrightarrow>
    (\<forall>j<k. loc (foldl (roll_step fa oa dates) inv0 (List.enumerate 0 (take k dates))) (s + int j) p
        = loc inv0 s p + (\<Sum>i\<le>j. loc fa (s + int i) p - loc oa (s + int i) p))
    \<and> (\<forall>d. (\<forall>j<k. d \<noteq> s + int j) \<longrightarrow>
          loc (foldl (roll_step fa oa dates) inv0 (List.enumerate 0 (take k dates))) d p = loc inv0 d p)"
proof (induction k)
  case 0
  show ?case by simp
next
  case (Suc k)
  let ?R = "foldl (roll_step fa oa dates) inv0 (List.enumerate 0 (take k dates))"
  from Suc.prems have k: "k < n" by simp
  then have len: "k < length dates" and nth: "dates ! k = s + int k"
    by (simp_all add: dates)
  have IH1: "\<And>j. j < k \<Longrightarrow> loc ?R (s + int j) p
        = loc inv0 s p + (\<Sum>i\<le>j. loc fa (s + int i) p - loc oa (s + int i) p)"
    and IH2: "\<And>d. (\<forall>j<k. d \<noteq> s + int j) \<Longrightarrow> loc ?R d p = loc inv0 d p"
    using Suc.IH k by simp_all
  have hp: "has_column ?R p"
    using p has_column_names [of ?R inv0 p] by simp
  have step: "foldl (roll_step fa oa dates) inv0 (List.enumerate 0 (take (Suc k) dates))
      = roll_step fa oa dates ?R (k, s + int k)"
    by (simp add: enumerate_take_Suc [OF len] nth)
  have new: "loc (roll_step fa oa dates ?R (k, s + int k)) (s + int k) p
      = loc inv0 s p + (\<Sum>i\<le>k. loc fa (s + int i) p - loc oa (s + int i) p)"
  proof (cases k)
    case 0
    have "loc ?R s p = loc inv0 s p" using IH2 [of s] 0 by simp
    then show ?thesis using 0 hp by (simp add: roll_step_def loc_set_row)
  next
    case (Suc k')
    have prev: "dates ! (k - 1) = s + int k'"
      using Suc k by (simp add: dates)
    have "loc ?R (s + int k') p
        = loc inv0 s p + (\<Sum>i\<le>k'. loc fa (s + int i) p - loc oa (s + int i) p)"
      using IH1 [of k'] Suc by simp
    then show ?thesis
      using Suc hp prev by (simp add: roll_step_def Let_def loc_set_row)
  qed
  have old: "loc (roll_step fa oa dates ?R (k, s + int k)) d p = loc ?R d p" if "d \<noteq> s + int k" for d
    using that by (simp add: roll_step_def Let_def loc_set_row)
  show ?case
  proof (intro conjI allI impI)
    fix j assume "j < Suc k"
    then consider "j = k" | "j < k" by linarith
    then show "loc (foldl (roll_step fa oa dates) inv0 (List.enumerate 0 (take (Suc k) dates))) (s + int j) p
        = loc inv0 s p + (\<Sum>i\<le>j. loc fa (s + int i) p - loc oa (s + int i) p)"
    proof cases
      case 1
      then show ?thesis using new step by simp
    next
      case 2
      then have "s + int j \<noteq> s + int k" by simp
      then show ?thesis using old IH1 [OF 2] step by simp
    qed
  next
    fix d assume d: "\<forall>j<Suc k. d \<noteq> s + int j"
    then have "d \<noteq> s + int k" and "\<forall>j<k. d \<noteq> s + int j" by simp_all
    then show "loc (foldl (roll_step fa oa dates) inv0 (List.enumerate 0 (take (Suc k) dates))) d p = loc inv0 d p"
      using old IH2 step by simp
  qed
qed

lemma roll_forward_closed:
  assumes "dates = map (\<lambda>i. s + int i) [0..<n]" and "has_column inv0 p" and "j < n"
  shows "loc (roll_forward fa oa dates inv0) (s + int j) p
      = loc inv0 s p + (\<Sum>i\<le>j. loc fa (s + int i) p - loc oa (s + int i) p)"
proof -
  have "length dates = n" using assms(1) by simp
  then have "take n dates = dates" by simp
  then show ?thesis
    using roll_prefix [OF assms(1,2), of n fa oa] assms(3) by (simp add: roll_forward_def)
qed

lemma set_unique [simp]: "set (unique xs) = set xs"
  by (induction xs rule: unique.induct) auto

lemma distinct_unique [simp]: "distinct (unique xs)"
  by (induction xs rule: unique.induct) auto

lemma map_of_tabulate:
  "map_of (map (\<lambda>p. (p, f p)) ps) p = (if p \<in> set ps then Some (f p) else None)"
  by (induction ps) auto

lemma column_zeros: "column (zeros idx cols) p = (if p \<in> set cols then Some (\<lambda>_. 0) else None)"
  by (simp add: column_def zeros_def map_of_tabulate)

lemma loc_zeros [simp]: "loc (zeros idx cols) d p = 0"
  by (simp add: loc_def column_zeros)

lemma names_zeros [simp]: "map fst (columns (zeros idx cols)) = cols"
  by (simp add: zeros_def comp_def)

lemma names_foldl_set_cell:
  "map fst (columns (foldl (\<lambda>inventory product. set_cell inventory d product (g product)) df ps))
     = map fst (columns df)"
  by (induction ps arbitrary: df) simp_all

lemma names_initial_inventory [simp]:
  "map fst (columns (initial_inventory dates s product_data)) = products_of product_data"
  by (simp add: initial_inventory_def Let_def names_foldl_set_cell)

lemma has_column_initial_inventory [simp]:
  "has_column (initial_inventory dates s product_data) p \<longleftrightarrow> p \<in> set (products_of product_data)"
  by (simp add: has_column_def)

lemma loc_aggregate:
  "loc (aggregate rows dates products) d p
     = (if p \<in> set products \<and> d \<in> set dates then group_sum rows d p else 0)"
  by (simp add: loc_def column_def aggregate_def map_of_tabulate)

lemma group_sum_Nil [simp]: "group_sum [] d p = 0"
  by (simp add: group_sum_def)

lemma group_sum_append: "group_sum (xs @ ys) d p = group_sum xs d p + group_sum ys d p"
  by (simp add: group_sum_def)

lemma group_sum_map_filter:
  assumes "\<And>r. r \<in> set rs \<Longrightarrow> fst (h r) = d \<and> fst (snd (h r)) = p \<Longrightarrow> Q r"
  shows "group_sum (map h (filter Q rs)) d p = group_sum (map h rs) d p"
proof -
  have "filter (\<lambda>(d', p', q). d' = d \<and> p' = p) (map h (filter Q rs))
      = filter (\<lambda>(d', p', q). d' = d \<and> p' = p) (map h rs)"
    using assms by (induction rs) (auto simp: case_prod_unfold)
  then show ?thesis by (simp add: group_sum_def)
qed

lemma loc_factory_agg:
  "loc (factory_agg factory_data dates products) d p
     = (if p \<in> set products \<and> d \<in> set dates then inbound factory_data d p else 0)"
proof -
  let ?h = "\<lambda>r. (eta_FLTC r, Part_No r, Qty r)"
  let ?valid = "filter (\<lambda>r. Part_No r \<in> set products) factory_data"
  have eq: "group_sum (map ?h ?valid) d p = inbound factory_data d p" if "p \<in> set products"
    unfolding inbound_def using that by (intro group_sum_map_filter) simp
  show ?thesis
  proof (cases "?valid = []")
    case True
    then have "p \<in> set products \<Longrightarrow> inbound factory_data d p = 0"
      using eq by simp
    with True show ?thesis by (simp add: factory_agg_def)
  next
    case False
    then show ?thesis using eq by (simp add: factory_agg_def loc_aggregate)
  qed
qed

lemma loc_order_agg:
  "loc (order_agg (filter_orders (start_date today) order_data) dates products) d p
     = (if p \<in> set products \<and> d \<in> set dates then outbound today order_data d p else 0)"
proof (cases "filter_orders (start_date today) order_data = []")
  case True
  then show ?thesis by (simp add: order_agg_def outbound_def)
next
  case False
  then show ?thesis by (simp add: order_agg_def outbound_def loc_aggregate)
qed

lemma date_range_as_map:
  "date_range (start_date today) (end_date today) = map (\<lambda>i. start_date today + int i) [0..<181]"
  using upto_as_map [of "start_date today" 180] by (simp add: date_range_def end_date_def)

text \<open>The balance of a known part on day \<open>j\<close> of the window, in closed form.\<close>

lemma calculate_inventory_closed:
  assumes p: "p \<in> set (products_of product_data)" and j: "j < 181"
  shows "loc (calculate_inventory today factory_data order_data product_data) (start_date today + int j) p
     = loc (initial_inventory (date_range (start_date today) (end_date today)) (start_date today) product_data)
         (start_date today) p
       + (\<Sum>i\<le>j. inbound factory_data (start_date today + int i) p
                  - outbound today order_data (start_date today + int i) p)"
proof -
  let ?s = "start_date today"
  let ?dates = "date_range ?s (end_date today)"
  let ?ps = "products_of product_data"
  have mem: "?s + int i \<in> set ?dates" if "i \<le> j" for i
    using that j by (simp add: date_range_def end_date_def)
  have "loc (calculate_inventory today factory_data order_data product_data) (?s + int j) p
      = loc (initial_inventory ?dates ?s product_data) ?s p
        + (\<Sum>i\<le>j. loc (factory_agg factory_data ?dates ?ps) (?s + int i) p
                   - loc (order_agg (filter_orders ?s order_data) ?dates ?ps) (?s + int i) p)"
    unfolding calculate_inventory_def Let_def
    by (rule roll_forward_closed [OF date_range_as_map _ j]) (simp add: p)
  also have "(\<Sum>i\<le>j. loc (factory_agg factory_data ?dates ?ps) (?s + int i) p
                   - loc (order_agg (filter_orders ?s order_data) ?dates ?ps) (?s + int i) p)
      = (\<Sum>i\<le>j. inbound factory_data (?s + int i) p - outbound today order_data (?s + int i) p)"
    by (rule sum.cong) (simp_all add: loc_factory_agg loc_order_agg p mem)
  finally show ?thesis .
qed

text \<open>
  Claim C1. For every known part and every date after the window start, up to the window
  end, the balance is the balance of the day before, plus the sum of the shipment
  quantities of that date and part, minus the sum of the quantities of the surviving
  orders of that date and part. The loop visits the dates of the axis in ascending
  order, one turn per day.
\<close>

theorem roll_forward_recurrence:
  assumes "p \<in> set (products_of product_data)"
    and "start_date today < d" and "d \<le> end_date today"
  shows "loc (calculate_inventory today factory_data order_data product_data) d p
     = loc (calculate_inventory today factory_data order_data product_data) (d - 1) p
       + inbound factory_data d p - outbound today order_data d p"
proof -
  define j where "j = nat (d - start_date today - 1)"
  have d: "d = start_date today + int (Suc j)" and j: "Suc j < 181"
    using assms(2,3) by (simp_all add: j_def end_date_def)
  have d1: "d - 1 = start_date today + int j"
    using d by simp
  show ?thesis
    unfolding d1 unfolding d
    using calculate_inventory_closed [OF assms(1) j, of today factory_data order_data]
      calculate_inventory_closed [OF assms(1) Suc_lessD [OF j], of today factory_data order_data]
    by simp
qed

theorem roll_forward_recurrence_witness:
  "''X'' \<in> set (products_of
      [\<lparr>Delta_PartNO = ''X'', Month_End_SAP_Inventory = Number 10, Model = None\<rparr>,
       \<lparr>Delta_PartNO = ''Y'', Month_End_SAP_Inventory = Null, Model = None\<rparr>])
   \<and> start_date today0 < 739923 \<and> 739923 \<le> end_date today0
   \<and> loc (calculate_inventory today0
        [\<lparr>Part_No = ''X'', eta_FLTC = 739923, Qty = Some 5, Status = None\<rparr>]
        [\<lparr>Product_Name = ''Y'', Shipment_Date = 739922, Quantity = Some 3, Quotation_status = None\<rparr>]
        [\<lparr>Delta_PartNO = ''X'', Month_End_SAP_Inventory = Number 10, Model = None\<rparr>,
         \<lparr>Delta_PartNO = ''Y'', Month_End_SAP_Inventory = Null, Model = None\<rparr>]) 739923 ''X''
     = loc (calculate_inventory today0
        [\<lparr>Part_No = ''X'', eta_FLTC = 739923, Qty = Some 5, Status = None\<rparr>]
        [\<lparr>Product_Name = ''Y'', Shipment_Date = 739922, Quantity = Some 3, Quotation_status = None\<rparr>]
        [\<lparr>Delta_PartNO = ''X'', Month_End_SAP_Inventory = Number 10, Model = None\<rparr>,
         \<lparr>Delta_PartNO = ''Y'', Month_End_SAP_Inventory = Null, Model = None\<rparr>]) 739922 ''X'' + 5"
  using roll_forward_recurrence [of "''X''"
      "[\<lparr>Delta_PartNO = ''X'', Month_End_SAP_Inventory = Number 10, Model = None\<rparr>,
        \<lparr>Delta_PartNO = ''Y'', Month_End_SAP_Inventory = Null, Model = None\<rparr>]"
      today0 739923
      "[\<lparr>Part_No = ''X'', eta_FLTC = 739923, Qty = Some 5, Status = None\<rparr>]"
      "[\<lparr>Product_Name = ''Y'', Shipment_Date = 739922, Quantity = Some 3, Quotation_status = None\<rparr>]"]
  by (simp add: start_date_today0 end_date_def products_of_def
      inbound_def outbound_def group_sum_def filter_orders_def isin_def)

subsection \<open>The starting balance\<close>

lemma find_filter: "find P (filter Q xs) = find (\<lambda>x. P x \<and> Q x) xs"
  by (induction xs) auto

lemma filter_drop_duplicates:
  "(case filter (\<lambda>r. Delta_PartNO r = p) (drop_duplicates rs) of [] \<Rightarrow> a | r # _ \<Rightarrow> f r)
     = (case find (\<lambda>r. Delta_PartNO r = p) rs of None \<Rightarrow> a | Some r \<Rightarrow> f r)"
proof (induction rs rule: drop_duplicates.induct)
  case 1
  show ?case by simp
next
  case (2 r rs)
  show ?case
  proof (cases "Delta_PartNO r = p")
    case True
    then show ?thesis by simp
  next
    case False
    have "find (\<lambda>x. Delta_PartNO x = p \<and> Delta_PartNO x \<noteq> Delta_PartNO r) rs
        = find (\<lambda>x. Delta_PartNO x = p) rs"
      using False by (intro arg_cong2 [where f = find]) auto
    then show ?thesis using False 2 by (simp add: find_filter)
  qed
qed

lemma initial_qty_clean:
  "initial_qty (clean_product_data product_data) p = first_valued_record_quantity product_data p"
  unfolding initial_qty_def clean_product_data_def first_valued_record_quantity_def dropna_def
  by (simp add: filter_drop_duplicates find_filter)

lemma loc_foldl_set_cell:
  "loc (foldl (\<lambda>inventory product. set_cell inventory d product (g product)) df ps) d p
     = (if p \<in> set ps \<and> has_column df p then g p else loc df d p)"
proof (induction ps arbitrary: df rule: rev_induct)
  case Nil
  show ?case by simp
next
  case (snoc q ps)
  have "has_column (foldl (\<lambda>inventory product. set_cell inventory d product (g product)) df ps) p
      = has_column df p"
    by (rule has_column_names) (simp add: names_foldl_set_cell)
  then show ?case using snoc by (simp add: loc_set_cell)
qed

lemma loc_initial_inventory:
  "p \<in> set (products_of product_data) \<Longrightarrow>
   loc (initial_inventory dates s product_data) s p = first_valued_record_quantity product_data p"
  by (simp add: initial_inventory_def Let_def loc_foldl_set_cell has_column_def initial_qty_clean)

text \<open>
  Claim C3, as the code has it. For every known part, the balance at the window start
  before the flows of day one is the quantity of the first starting-inventory record of
  the part, in input order, whose quantity is not null: 0 when the part has no such
  record or when that quantity is not a number. Records with a null quantity are
  dropped before the duplicates are, so a null first record does not win; the records
  after the first valued one are ignored. The balance of day one then adds the inbound
  and subtracts the outbound of that day.
\<close>

theorem initial_balance_first_valued_record:
  assumes "p \<in> set (products_of product_data)"
  shows "loc (initial_inventory (date_range (start_date today) (end_date today)) (start_date today)
             product_data) (start_date today) p
           = first_valued_record_quantity product_data p
    \<and> loc (calculate_inventory today factory_data order_data product_data) (start_date today) p
           = first_valued_record_quantity product_data p
             + inbound factory_data (start_date today) p
             - outbound today order_data (start_date today) p"
  using calculate_inventory_closed [OF assms, of 0 today factory_data order_data]
  by (simp add: loc_initial_inventory [OF assms])

theorem initial_balance_first_valued_record_witness:
  "''P'' \<in> set (products_of
      [\<lparr>Delta_PartNO = ''P'', Month_End_SAP_Inventory = Null, Model = None\<rparr>,
       \<lparr>Delta_PartNO = ''P'', Month_End_SAP_Inventory = Number 5, Model = None\<rparr>,
       \<lparr>Delta_PartNO = ''P'', Month_End_SAP_Inventory = Number 8, Model = None\<rparr>])
   \<and> loc (calculate_inventory today0
        [\<lparr>Part_No = ''P'', eta_FLTC = 739921, Qty = Some 2, Status = None\<rparr>] []
        [\<lparr>Delta_PartNO = ''P'', Month_End_SAP_Inventory = Null, Model = None\<rparr>,
         \<lparr>Delta_PartNO = ''P'', Month_End_SAP_Inventory = Number 5, Model = None\<rparr>,
         \<lparr>Delta_PartNO = ''P'', Month_End_SAP_Inventory = Number 8, Model = None\<rparr>]) 739921 ''P'' = 7"
  using initial_balance_first_valued_record [of "''P''"
      "[\<lparr>Delta_PartNO = ''P'', Month_End_SAP_Inventory = Null, Model = None\<rparr>,
        \<lparr>Delta_PartNO = ''P'', Month_End_SAP_Inventory = Number 5, Model = None\<rparr>,
        \<lparr>Delta_PartNO = ''P'', Month_End_SAP_Inventory = Number 8, Model = None\<rparr>]"
      today0 "[\<lparr>Part_No = ''P'', eta_FLTC = 739921, Qty = Some 2, Status = None\<rparr>]" "[]"]
  by (simp add: start_date_today0 products_of_def first_valued_record_quantity_def
      inbound_def outbound_def group_sum_def filter_orders_def)

text \<open>
  Claim C3 as stated fails: with a null first record and a second record of 5 for the
  same part, the balance starts at 5, where the first record in input order gives 0.
\<close>

theorem initial_balance_first_record_counterexample:
  "loc (initial_inventory (date_range (start_date today0) (end_date today0)) (start_date today0)
      [\<lparr>Delta_PartNO = ''P'', Month_End_SAP_Inventory = Null, Model = None\<rparr>,
       \<lparr>Delta_PartNO = ''P'', Month_End_SAP_Inventory = Number 5, Model = None\<rparr>])
      (start_date today0) ''P'' = 5
   \<and> first_record_quantity
      [\<lparr>Delta_PartNO = ''P'', Month_End_SAP_Inventory = Null, Model = None\<rparr>,
       \<lparr>Delta_PartNO = ''P'', Month_End_SAP_Inventory = Number 5, Model = None\<rparr>] ''P'' = 0"
  by (simp add: initial_inventory_def products_of_def clean_product_data_def dropna_def
      initial_qty_def zeros_def set_cell_def loc_def column_def first_record_quantity_def)

subsection \<open>The order filter\<close>

lemma filter_orders_append:
  "filter_orders s (xs @ ys) = filter_orders s xs @ filter_orders s ys"
  by (simp add: filter_orders_def)

text \<open>
  Claim C7. An order whose status is quotation, cancel, confirming or double cancel, or
  whose date is before the window start, contributes nothing: appending it to any order
  table leaves the whole balance matrix as it was.
\<close>

theorem dropped_orders_change_nothing:
  assumes "Quotation_status r \<in> Some ` set excluded_statuses \<or> Shipment_Date r < start_date today"
  shows "calculate_inventory today factory_data (order_data @ [r]) product_data
       = calculate_inventory today factory_data order_data product_data"
proof -
  have "filter_orders (start_date today) [r] = []"
    using assms by (auto simp: filter_orders_def isin_def)
  then have "filter_orders (start_date today) (order_data @ [r])
      = filter_orders (start_date today) order_data"
    by (simp add: filter_orders_append)
  then show ?thesis by (simp add: calculate_inventory_def)
qed

theorem dropped_orders_change_nothing_witness:
  "calculate_inventory today0 []
     ([\<lparr>Product_Name = ''Y'', Shipment_Date = 739922, Quantity = Some 3, Quotation_status = None\<rparr>]
      @ [\<lparr>Product_Name = ''Y'', Shipment_Date = 739925, Quantity = Some 4,
          Quotation_status = Some ''cancel''\<rparr>])
     [\<lparr>Delta_PartNO = ''Y'', Month_End_SAP_Inventory = Number 1, Model = None\<rparr>]
   = calculate_inventory today0 []
     [\<lparr>Product_Name = ''Y'', Shipment_Date = 739922, Quantity = Some 3, Quotation_status = None\<rparr>]
     [\<lparr>Delta_PartNO = ''Y'', Month_End_SAP_Inventory = Number 1, Model = None\<rparr>]
   \<and> calculate_inventory today0 []
     ([] @ [\<lparr>Product_Name = ''Y'', Shipment_Date = 739920, Quantity = Some 4,
          Quotation_status = Some ''confirmed''\<rparr>])
     [\<lparr>Delta_PartNO = ''Y'', Month_End_SAP_Inventory = Number 1, Model = None\<rparr>]
   = calculate_inventory today0 [] []
     [\<lparr>Delta_PartNO = ''Y'', Month_End_SAP_Inventory = Number 1, Model = None\<rparr>]"
proof -
  have 1: "Quotation_status \<lparr>Product_Name = ''Y'', Shipment_Date = 739925, Quantity = Some 4,
          Quotation_status = Some ''cancel''\<rparr> \<in> Some ` set excluded_statuses
     \<or> Shipment_Date \<lparr>Product_Name = ''Y'', Shipment_Date = 739925, Quantity = Some 4,
          Quotation_status = Some ''cancel''\<rparr> < start_date today0"
    by (simp add: excluded_statuses_def)
  have 2: "Quotation_status \<lparr>Product_Name = ''Y'', Shipment_Date = 739920, Quantity = Some 4,
          Quotation_status = Some ''confirmed''\<rparr> \<in> Some ` set excluded_statuses
     \<or> Shipment_Date \<lparr>Product_Name = ''Y'', Shipment_Date = 739920, Quantity = Some 4,
          Quotation_status = Some ''confirmed''\<rparr> < start_date today0"
    by (simp add: start_date_today0)
  show ?thesis
    using dropped_orders_change_nothing [OF 1] dropped_orders_change_nothing [OF 2] by blast
qed

lemma outbound_append:
  "outbound today (order_data @ [r]) d p
     = outbound today order_data d p
       + (if Shipment_Date r \<ge> start_date today \<and> \<not> isin (Quotation_status r) excluded_statuses
             \<and> Shipment_Date r = d \<and> Product_Name r = p
          then (case Quantity r of Some q \<Rightarrow> q | None \<Rightarrow> 0) else 0)"
  by (simp add: outbound_def filter_orders_def group_sum_append) (simp add: group_sum_def)

lemma sum_single_day:
  assumes "s \<le> t"
  shows "(\<Sum>i\<le>j. if t = s + int i then q else 0) = (if t \<le> s + int j then q else (0::int))"
proof -
  have "(t = s + int i) = (i = nat (t - s))" for i
    using assms by auto
  then have "(\<Sum>i\<le>j. if t = s + int i then q else 0) = (\<Sum>i\<le>j. if i = nat (t - s) then q else 0)"
    by simp
  also have "\<dots> = (if nat (t - s) \<in> {..j} then q else 0)"
    by (simp add: sum.delta)
  also have "\<dots> = (if t \<le> s + int j then q else 0)"
    using assms by auto
  finally show ?thesis .
qed

text \<open>
  Claim C10. An order with a null status and a date on or after the window start passes
  the filter, and its quantity counts as outgoing demand of its date and part: appended
  to any order table, it lowers by its quantity every balance of its part from its date
  on, and leaves every other cell of the matrix as it was.
\<close>

theorem null_status_order_is_demand:
  assumes "Quotation_status r = None" and "start_date today \<le> Shipment_Date r"
    and "p \<in> set (products_of product_data)"
    and "start_date today \<le> d" and "d \<le> end_date today"
  shows "r \<in> set (filter_orders (start_date today) (order_data @ [r]))
    \<and> outbound today (order_data @ [r]) (Shipment_Date r) (Product_Name r)
        = outbound today order_data (Shipment_Date r) (Product_Name r)
          + (case Quantity r of Some q \<Rightarrow> q | None \<Rightarrow> 0)
    \<and> loc (calculate_inventory today factory_data (order_data @ [r]) product_data) d p
        = loc (calculate_inventory today factory_data order_data product_data) d p
          - (if Product_Name r = p \<and> Shipment_Date r \<le> d
             then (case Quantity r of Some q \<Rightarrow> q | None \<Rightarrow> 0) else 0)"
proof -
  let ?q = "case Quantity r of Some q \<Rightarrow> q | None \<Rightarrow> 0"
  let ?s = "start_date today"
  have keep: "Shipment_Date r \<ge> ?s \<and> \<not> isin (Quotation_status r) excluded_statuses"
    using assms(1,2) by (simp add: isin_def)
  define j where "j = nat (d - ?s)"
  have d: "d = ?s + int j" and j: "j < 181"
    using assms(4,5) by (simp_all add: j_def end_date_def)
  have out: "outbound today (order_data @ [r]) (?s + int i) p
      = outbound today order_data (?s + int i) p
        + (if Shipment_Date r = ?s + int i then (if Product_Name r = p then ?q else 0) else 0)" for i
    using keep by (simp add: outbound_append)
  have "(\<Sum>i\<le>j. inbound factory_data (?s + int i) p - outbound today (order_data @ [r]) (?s + int i) p)
      = (\<Sum>i\<le>j. inbound factory_data (?s + int i) p - outbound today order_data (?s + int i) p)
        - (\<Sum>i\<le>j. if Shipment_Date r = ?s + int i then (if Product_Name r = p then ?q else 0) else 0)"
  proof -
    have "inbound factory_data (?s + int i) p - outbound today (order_data @ [r]) (?s + int i) p
        = (inbound factory_data (?s + int i) p - outbound today order_data (?s + int i) p)
          - (if Shipment_Date r = ?s + int i then (if Product_Name r = p then ?q else 0) else 0)" for i
      unfolding out by simp
    then show ?thesis by (simp only: sum_subtractf)
  qed
  also have "(\<Sum>i\<le>j. if Shipment_Date r = ?s + int i then (if Product_Name r = p then ?q else 0) else 0)
      = (if Shipment_Date r \<le> ?s + int j then (if Product_Name r = p then ?q else 0) else 0)"
    by (rule sum_single_day [OF assms(2)])
  finally have sums: "(\<Sum>i\<le>j. inbound factory_data (?s + int i) p
          - outbound today (order_data @ [r]) (?s + int i) p)
      = (\<Sum>i\<le>j. inbound factory_data (?s + int i) p - outbound today order_data (?s + int i) p)
        - (if Product_Name r = p \<and> Shipment_Date r \<le> d then ?q else 0)"
    by (simp add: d)
  have bal: "loc (calculate_inventory today factory_data (order_data @ [r]) product_data) d p
        = loc (calculate_inventory today factory_data order_data product_data) d p
          - (if Product_Name r = p \<and> Shipment_Date r \<le> d then ?q else 0)"
    unfolding d
    using calculate_inventory_closed [OF assms(3) j, of today factory_data "order_data @ [r]"]
      calculate_inventory_closed [OF assms(3) j, of today factory_data order_data] sums
    by (simp add: d)
  have "r \<in> set (filter_orders ?s (order_data @ [r]))"
    using keep by (simp add: filter_orders_def)
  moreover have "outbound today (order_data @ [r]) (Shipment_Date r) (Product_Name r)
        = outbound today order_data (Shipment_Date r) (Product_Name r) + ?q"
    using keep by (simp add: outbound_append)
  ultimately show ?thesis using bal by simp
qed

theorem null_status_order_is_demand_witness:
  "loc (calculate_inventory today0 []
      ([] @ [\<lparr>Product_Name = ''Y'', Shipment_Date = 739922, Quantity = Some 3, Quotation_status = None\<rparr>])
      [\<lparr>Delta_PartNO = ''Y'', Month_End_SAP_Inventory = Number 10, Model = None\<rparr>]) 739930 ''Y''
   = loc (calculate_inventory today0 [] []
      [\<lparr>Delta_PartNO = ''Y'', Month_End_SAP_Inventory = Number 10, Model = None\<rparr>]) 739930 ''Y'' - 3"
  using null_status_order_is_demand [of
      "\<lparr>Product_Name = ''Y'', Shipment_Date = 739922, Quantity = Some 3, Quotation_status = None\<rparr>"
      today0 "''Y''" "[\<lparr>Delta_PartNO = ''Y'', Month_End_SAP_Inventory = Number 10, Model = None\<rparr>]"
      739930 "[]" "[]"]
  by (simp add: start_date_today0 end_date_def products_of_def)

subsection \<open>Columns of a frame\<close>

lemma map_of_filter_label:
  "map_of (filter (\<lambda>(c, s). c \<noteq> p) cs) q = (if q = p then None else map_of cs q)"
  by (induction cs) auto

lemma column_drop_column:
  "column (drop_column df p) q = (if q = p then None else column df q)"
  by (simp add: column_def drop_column_def map_of_filter_label)

lemma has_column_drop_column:
  "has_column (drop_column df p) q \<longleftrightarrow> q \<noteq> p \<and> has_column df q"
  by (simp add: has_column_iff column_drop_column)

lemma map_of_snoc:
  "map_of (cs @ [(p, s)]) q
     = (case map_of cs q of None \<Rightarrow> (if q = p then Some s else None) | Some y \<Rightarrow> Some y)"
  by (induction cs) auto

lemma column_set_column:
  "column (set_column df p s) q = (if q = p then Some s else column df q)"
proof (cases "has_column df p")
  case True
  have "(\<lambda>(c, s'). if c = p then (c, s) else (c, s')) = (\<lambda>(c, s'). (c, if c = p then s else s'))"
    by (auto simp: fun_eq_iff)
  then have "column (set_column df p s) q = map_option (\<lambda>s'. if q = p then s else s') (column df q)"
    using True map_of_relabel [of "\<lambda>c s'. if c = p then s else s'" "columns df" q]
    by (simp add: set_column_def column_def)
  moreover have "column df p \<noteq> None"
    using True by (simp add: has_column_iff)
  ultimately show ?thesis
    by (cases "column df q") auto
next
  case False
  then have "map_of (columns df) p = None"
    by (simp add: has_column_iff column_def)
  then show ?thesis
    using False map_of_snoc [of "columns df" p s q]
    by (simp add: set_column_def column_def del: map_of_append split: option.splits)
qed

lemma map_of_rename:
  "new \<notin> fst ` set cs \<Longrightarrow> old \<noteq> new \<Longrightarrow>
   map_of (map (\<lambda>(c, s). if c = old then (new, s) else (c, s)) cs) q
     = (if q = new then map_of cs old else if q = old then None else map_of cs q)"
proof (induction cs arbitrary: q)
  case Nil
  show ?case by simp
next
  case (Cons x cs)
  obtain c s where x: "x = (c, s)" by (cases x)
  from Cons.prems have new: "new \<notin> fst ` set cs" and c: "c \<noteq> new"
    by (auto simp: x)
  note IH = Cons.IH [OF new Cons.prems(2)]
  show ?case
  proof (cases "c = old")
    case True
    with Cons.prems(2) show ?thesis by (simp add: x IH)
  next
    case False
    with c Cons.prems(2) show ?thesis by (simp add: x IH)
  qed
qed

lemma column_rename_column:
  "\<not> has_column df new \<Longrightarrow> old \<noteq> new \<Longrightarrow>
   column (rename_column df old new) q
     = (if q = new then column df old else if q = old then None else column df q)"
  by (simp add: column_def rename_column_def has_column_def map_of_rename)

lemma column_one_to_one_rule:
  "column (one_to_one_rule df r) = fold_into (column df) r"
proof (cases r)
  case (Pair a m)
  show ?thesis
  proof (cases "column df a")
    case None
    then show ?thesis by (simp add: Pair one_to_one_rule_def fold_into_def)
  next
    case (Some s)
    show ?thesis
    proof (cases "column df m")
      case None
      then have "\<not> has_column df m" and "a \<noteq> m"
        using Some by (auto simp: has_column_iff)
      then show ?thesis using None Some
        by (auto simp: Pair one_to_one_rule_def fold_into_def fun_eq_iff
            column_drop_column column_rename_column)
    next
      case (Some t)
      then show ?thesis using \<open>column df a = Some s\<close>
        by (auto simp: Pair one_to_one_rule_def fold_into_def fun_eq_iff
            column_drop_column column_set_column)
    qed
  qed
qed

lemma column_many_to_one_alias:
  "column (many_to_one_alias m df a) = fold_into (column df) (a, m)"
  by (auto simp: many_to_one_alias_def fold_into_def fun_eq_iff
      column_drop_column column_set_column split: option.splits)

lemma index_drop_column [simp]: "index (drop_column df p) = index df"
  by (simp add: drop_column_def)

lemma index_set_column [simp]: "index (set_column df p s) = index df"
  by (simp add: set_column_def)

lemma index_rename_column [simp]: "index (rename_column df a b) = index df"
  by (simp add: rename_column_def)

subsection \<open>One-to-one rules\<close>

text \<open>
  Claim C8. A one-to-one rule \<open>(free, main)\<close> on a matrix that has the column \<open>free\<close> and
  not the column \<open>main\<close> is a pure rename: the result has a column \<open>main\<close> with the series
  the column \<open>free\<close> had, in the same position, no column \<open>free\<close>, every other column and
  the date axis as before. On a matrix without the column \<open>free\<close> the rule changes nothing.
\<close>

theorem one_to_one_rename:
  "(has_column df free \<and> \<not> has_column df main \<longrightarrow>
      column (one_to_one_rule df (free, main)) main = column df free
      \<and> has_column (one_to_one_rule df (free, main)) main
      \<and> \<not> has_column (one_to_one_rule df (free, main)) free
      \<and> columns (one_to_one_rule df (free, main))
          = map (\<lambda>(c, s). if c = free then (main, s) else (c, s)) (columns df)
      \<and> index (one_to_one_rule df (free, main)) = index df)
   \<and> (\<not> has_column df free \<longrightarrow> one_to_one_rule df (free, main) = df)"
proof (intro conjI impI)
  assume "\<not> has_column df free"
  then show "one_to_one_rule df (free, main) = df"
    by (simp add: one_to_one_rule_def has_column_iff)
next
  assume a: "has_column df free \<and> \<not> has_column df main"
  then obtain s where s: "column df free = Some s" and m: "column df main = None"
    by (auto simp: has_column_iff)
  then have ne: "free \<noteq> main" by auto
  have rule: "one_to_one_rule df (free, main) = drop_column (rename_column df free main) free"
    by (simp add: one_to_one_rule_def s m)
  have col: "column (one_to_one_rule df (free, main)) = fold_into (column df) (free, main)"
    by (rule column_one_to_one_rule)
  show "column (one_to_one_rule df (free, main)) main = column df free"
    using ne by (simp add: col fold_into_def s m)
  then show "has_column (one_to_one_rule df (free, main)) main"
    by (simp add: has_column_iff s)
  show "\<not> has_column (one_to_one_rule df (free, main)) free"
    by (simp add: has_column_iff col fold_into_def s m)
  have "filter (\<lambda>(c, s). c \<noteq> free) (map (\<lambda>(c, s). if c = free then (main, s) else (c, s)) cs)
      = map (\<lambda>(c, s). if c = free then (main, s) else (c, s)) cs" for cs :: "(string \<times> series) list"
    using ne by (induction cs) (auto split: if_splits)
  then show "columns (one_to_one_rule df (free, main))
      = map (\<lambda>(c, s). if c = free then (main, s) else (c, s)) (columns df)"
    by (simp add: rule drop_column_def rename_column_def)
  show "index (one_to_one_rule df (free, main)) = index df"
    by (simp add: rule)
qed

theorem one_to_one_rename_witness:
  "column (one_to_one_rule matrix0 (''A'', ''M'')) ''M'' = column matrix0 ''A''
   \<and> loc (one_to_one_rule matrix0 (''A'', ''M'')) 739922 ''M'' = 1
   \<and> \<not> has_column (one_to_one_rule matrix0 (''A'', ''M'')) ''A''
   \<and> map fst (columns (one_to_one_rule matrix0 (''A'', ''M''))) = [''M'', ''B'', ''C'']
   \<and> one_to_one_rule matrix0 (''F'', ''M'') = matrix0"
proof -
  have h: "has_column matrix0 ''A'' \<and> \<not> has_column matrix0 ''M''" and n: "\<not> has_column matrix0 ''F''"
    by (simp_all add: has_column_def matrix0_def)
  have a: "column matrix0 ''A'' = Some (\<lambda>_. 1)"
    by (simp add: column_def matrix0_def)
  show ?thesis
    using one_to_one_rename [of matrix0 "''A''" "''M''"] one_to_one_rename [of matrix0 "''F''" "''M''"] h n
    by (simp add: loc_def a) (simp add: matrix0_def)
qed

text \<open>
  Claim C9. A one-to-one rule whose free and main part numbers are the same part, present
  in the matrix, removes that column: the column is added into itself and then dropped
  under its own name. The other columns and the date axis stay as they were.
\<close>

theorem one_to_one_self_rule_drops:
  assumes "has_column df m"
  shows "\<not> has_column (one_to_one_rule df (m, m)) m
    \<and> columns (one_to_one_rule df (m, m)) = filter (\<lambda>(c, s). c \<noteq> m) (columns df)
    \<and> index (one_to_one_rule df (m, m)) = index df"
proof -
  obtain s where s: "column df m = Some s"
    using assms by (auto simp: has_column_iff)
  have rule: "one_to_one_rule df (m, m) = drop_column (set_column df m (\<lambda>d. s d + s d)) m"
    by (simp add: one_to_one_rule_def s)
  have "filter (\<lambda>(c, s). c \<noteq> m) (map (\<lambda>(c, s'). if c = m then (c, t) else (c, s')) cs)
      = filter (\<lambda>(c, s). c \<noteq> m) cs" for cs :: "(string \<times> series) list" and t
    by (induction cs) auto
  then have "columns (one_to_one_rule df (m, m)) = filter (\<lambda>(c, s). c \<noteq> m) (columns df)"
    using assms by (simp add: rule drop_column_def set_column_def)
  moreover have "\<not> has_column (one_to_one_rule df (m, m)) m"
    by (simp add: rule has_column_drop_column)
  ultimately show ?thesis by (simp add: rule)
qed

theorem one_to_one_self_rule_drops_witness:
  "has_column matrix0 ''B''
   \<and> \<not> has_column (one_to_one_rule matrix0 (''B'', ''B'')) ''B''
   \<and> map fst (columns (one_to_one_rule matrix0 (''B'', ''B''))) = [''A'', ''C'']"
proof -
  have h: "has_column matrix0 ''B''"
    by (simp add: has_column_def matrix0_def)
  show ?thesis
    using one_to_one_self_rule_drops [OF h] h by (simp add: matrix0_def)
qed

subsection \<open>Many-to-one groups\<close>

lemma column_many_to_one_group:
  "column (many_to_one_group df (m, aliases)) = foldl fold_into (column df) (map (\<lambda>a. (a, m)) aliases)"
proof -
  have "column (foldl (many_to_one_alias m) df aliases)
      = foldl fold_into (column df) (map (\<lambda>a. (a, m)) aliases)"
    by (induction aliases arbitrary: df) (simp_all add: column_many_to_one_alias)
  then show ?thesis by (simp add: many_to_one_group_def)
qed

lemma index_many_to_one_alias [simp]: "index (many_to_one_alias m df a) = index df"
  by (simp add: many_to_one_alias_def split: option.splits)

lemma index_many_to_one_group [simp]: "index (many_to_one_group df g) = index df"
proof -
  have "index (foldl (many_to_one_alias m) df aliases) = index df" for m aliases
    by (induction aliases arbitrary: df) simp_all
  then show ?thesis by (cases g) (simp add: many_to_one_group_def)
qed










lemma tens_add_not_associative: "tens_add (tens_add 5 5) 1 \<noteq> tens_add 5 (tens_add 5 1)"
  by (simp add: tens_add_def)



text \<open>
  The proviso is needed: with the column \<open>m\<close> present and an addition that rounds, the two
  orders round differently.
\<close>

lemma rounding_order_matters:
  "map_of (many_to_one_group_with tens_add
       [(''M'', \<lambda>_. 5), (''A'', \<lambda>_. 5), (''B'', \<lambda>_. 1)] (''M'', [''A'', ''B''])) ''M''
     = Some (\<lambda>_. 10)
   \<and> map_of (many_to_one_group_with tens_add
       [(''M'', \<lambda>_. 5), (''A'', \<lambda>_. 5), (''B'', \<lambda>_. 1)] (''M'', [''B'', ''A''])) ''M''
     = Some (\<lambda>_. 0)"
  by (simp add: many_to_one_group_with_def many_to_one_alias_with_def tens_add_def)


subsection \<open>Exclusions and the whole resolution\<close>

lemma column_exclude_part:
  "column (exclude_part df p) q = (if q = p then None else column df q)"
  by (auto simp: exclude_part_def column_drop_column has_column_iff)

lemma column_foldl_exclude_part:
  "column (foldl exclude_part df ps) q = (if q \<in> set ps then None else column df q)"
  by (induction ps arbitrary: df) (simp_all add: column_exclude_part)

lemma column_exclude:
  "column (exclude df excluded_df) q
     = (if q \<in> set (excluded_parts excluded_df) then None else column df q)"
  by (simp add: exclude_def column_foldl_exclude_part)

lemma set_excluded_parts: "set (excluded_parts excluded_df) = {p. Some p \<in> set excluded_df}"
  by (induction excluded_df) (auto simp: excluded_parts_def split: option.splits)

lemma column_one_to_one:
  "column (one_to_one df rs) = foldl fold_into (column df) rs"
proof -
  have "column (foldl one_to_one_rule df rs) = foldl fold_into (column df) rs"
    by (induction rs arbitrary: df) (simp_all add: column_one_to_one_rule)
  then show ?thesis by (simp add: one_to_one_def)
qed

lemma column_many_to_one:
  "column (many_to_one df rows) = foldl fold_into (column df) (many_to_one_pairs rows)"
proof -
  have "column (foldl many_to_one_group df gs)
      = foldl fold_into (column df) (concat (map (\<lambda>(m, aliases). map (\<lambda>a. (a, m)) aliases) gs))" for gs
  proof (induction gs arbitrary: df)
    case Nil
    show ?case by simp
  next
    case (Cons g gs)
    obtain m aliases where g: "g = (m, aliases)" by (cases g)
    show ?case by (simp add: g Cons column_many_to_one_group)
  qed
  then show ?thesis by (simp add: many_to_one_def many_to_one_pairs_def)
qed

lemma set_many_to_one_pairs:
  "set (many_to_one_pairs rows) = (\<lambda>(m, a). (a, m)) ` set rows"
  by (auto simp: many_to_one_pairs_def groupby_def image_iff)

lemma column_export_to_excel:
  "column (export_to_excel inventory one_to_one_df many_to_one_df excluded_df)
     = foldl fold_into (column (exclude inventory excluded_df))
         (one_to_one_df @ many_to_one_pairs many_to_one_df)"
  by (simp add: export_to_excel_def column_many_to_one column_one_to_one)

lemma fold_into_absent:
  "cols q = None \<Longrightarrow> q \<noteq> snd am \<Longrightarrow> fold_into cols am q = None"
  by (cases am) (simp add: fold_into_def split: option.splits)

lemma foldl_fold_into_absent:
  "cols q = None \<Longrightarrow> q \<notin> snd ` set rs \<Longrightarrow> foldl fold_into cols rs q = None"
  by (induction rs arbitrary: cols) (simp_all add: fold_into_absent)

text \<open>
  Claim C2, as the code has it. Once the exclusion loop is done, no excluded part number
  is a column. After the one-to-one and many-to-one rules, an excluded part number is
  still no column provided no rule names it as its main part number.
\<close>

theorem excluded_parts_stay_out:
  assumes "x \<in> set (excluded_parts excluded_df)"
  shows "\<not> has_column (exclude inventory excluded_df) x
    \<and> (x \<notin> snd ` set one_to_one_df \<and> x \<notin> fst ` set many_to_one_df \<longrightarrow>
         \<not> has_column (export_to_excel inventory one_to_one_df many_to_one_df excluded_df) x)"
proof -
  have 1: "column (exclude inventory excluded_df) x = None"
    using assms by (simp add: column_exclude)
  have "snd ` set (one_to_one_df @ many_to_one_pairs many_to_one_df)
      = snd ` set one_to_one_df \<union> fst ` set many_to_one_df"
    by (simp add: set_many_to_one_pairs image_Un image_image case_prod_unfold)
  then have "column (export_to_excel inventory one_to_one_df many_to_one_df excluded_df) x = None"
    if "x \<notin> snd ` set one_to_one_df \<and> x \<notin> fst ` set many_to_one_df"
    unfolding column_export_to_excel
    using that 1
      foldl_fold_into_absent [of "column (exclude inventory excluded_df)" x
        "one_to_one_df @ many_to_one_pairs many_to_one_df"]
    by simp
  with 1 show ?thesis by (simp add: has_column_iff)
qed

lemma column_matrix0:
  "column matrix0 q
     = (if q = ''A'' then Some (\<lambda>_. 1) else if q = ''B'' then Some (\<lambda>_. 10)
        else if q = ''C'' then Some (\<lambda>_. 100) else None)"
  by (simp add: column_def matrix0_def)

lemma many_to_one_pairs_Nil [simp]: "many_to_one_pairs [] = []"
  by (simp add: many_to_one_pairs_def groupby_def)

lemma export_Z_example:
  "column (export_to_excel matrix0 [(''A'', ''C'')] [] [Some ''C'']) ''C'' = Some (\<lambda>_. 1)"
  by (simp add: column_export_to_excel column_exclude excluded_parts_def
      fold_into_def column_matrix0)

theorem excluded_parts_stay_out_witness:
  "''C'' \<in> set (excluded_parts [None, Some ''C''])
   \<and> \<not> has_column (exclude matrix0 [None, Some ''C'']) ''C''
   \<and> \<not> has_column (export_to_excel matrix0 [(''A'', ''B'')] [] [None, Some ''C'']) ''C''"
proof -
  have x: "''C'' \<in> set (excluded_parts [None, Some ''C''])"
    by (simp add: excluded_parts_def)
  show ?thesis
    using excluded_parts_stay_out [OF x, of matrix0 "[(''A'', ''B'')]" "[]"] x by simp
qed

text \<open>
  Claim C2 as stated fails: with \<open>C\<close> excluded and the one-to-one rule \<open>(A, C)\<close>, the column
  \<open>A\<close> is renamed to \<open>C\<close> after the exclusion, and the resolved matrix has a column \<open>C\<close>.
\<close>

theorem excluded_column_counterexample:
  "''C'' \<in> set (excluded_parts [Some ''C''])
   \<and> has_column (export_to_excel matrix0 [(''A'', ''C'')] [] [Some ''C'']) ''C''
   \<and> loc (export_to_excel matrix0 [(''A'', ''C'')] [] [Some ''C'']) 739921 ''C'' = 1"
  by (simp add: has_column_iff loc_def export_Z_example)
     (simp add: excluded_parts_def)

subsection \<open>Main columns as sums\<close>

lemma finite_contributors [simp]: "finite {a. (a, k) \<in> set rs}"
proof -
  have "{a. (a, k) \<in> set rs} \<subseteq> fst ` set rs" by force
  then show ?thesis by (rule finite_subset) simp
qed

lemma merged_same_set: "set rs = set rs' \<Longrightarrow> merged c0 rs = merged c0 rs'"
  by (simp add: merged_def fun_eq_iff)

lemma merged_no_rule: "k \<notin> snd ` set rs \<Longrightarrow> merged c0 rs k = c0 k"
proof -
  assume "k \<notin> snd ` set rs"
  then have "{a. (a, k) \<in> set rs} = {}" by force
  then show ?thesis by (cases "c0 k") (simp_all add: merged_def series_of_def)
qed

lemma merged_snoc_other:
  "k \<noteq> m \<Longrightarrow> merged c0 (rs @ [(a, m)]) k = merged c0 rs k"
  by (simp add: merged_def)

lemma merged_snoc_absent:
  assumes "c0 a = None"
  shows "merged c0 (rs @ [(a, m)]) k = merged c0 rs k"
proof (cases "k = m")
  case False
  then show ?thesis by (rule merged_snoc_other)
next
  case True
  have set: "{a'. (a', m) \<in> set (rs @ [(a, m)])} = insert a {a'. (a', m) \<in> set rs}"
    by auto
  have ex: "(\<exists>a'. (a', m) \<in> set (rs @ [(a, m)]) \<and> c0 a' \<noteq> None)
      = (\<exists>a'. (a', m) \<in> set rs \<and> c0 a' \<noteq> None)"
    using assms by auto
  have "(\<Sum>a'\<in>insert a {a'. (a', m) \<in> set rs}. series_of (c0 a') d)
      = (\<Sum>a'\<in>{a'. (a', m) \<in> set rs}. series_of (c0 a') d)" for d
  proof (cases "a \<in> {a'. (a', m) \<in> set rs}")
    case True
    then show ?thesis by (simp add: insert_absorb)
  next
    case False
    then show ?thesis using assms by (simp add: series_of_def)
  qed
  then show ?thesis
    unfolding True merged_def set ex by simp
qed

lemma merged_snoc_present:
  assumes a: "c0 a = Some s" and new: "a \<notin> fst ` set rs"
  shows "merged c0 (rs @ [(a, m)]) m
      = Some (case merged c0 rs m of Some t \<Rightarrow> (\<lambda>d. t d + s d) | None \<Rightarrow> s)"
proof -
  have notin: "a \<notin> {a'. (a', m) \<in> set rs}"
    using new by force
  have set: "{a'. (a', m) \<in> set (rs @ [(a, m)])} = insert a {a'. (a', m) \<in> set rs}"
    by auto
  have sum: "(\<Sum>a'\<in>{a'. (a', m) \<in> set (rs @ [(a, m)])}. series_of (c0 a') d)
      = s d + (\<Sum>a'\<in>{a'. (a', m) \<in> set rs}. series_of (c0 a') d)" for d
    unfolding set using notin a by (simp add: series_of_def)
  have new_val: "merged c0 (rs @ [(a, m)]) m
      = Some (\<lambda>d. series_of (c0 m) d + (s d + (\<Sum>a'\<in>{a'. (a', m) \<in> set rs}. series_of (c0 a') d)))"
  proof -
    have "\<exists>a'. (a', m) \<in> set (rs @ [(a, m)]) \<and> c0 a' \<noteq> None"
      using a by auto
    then show ?thesis unfolding merged_def sum by simp
  qed
  show ?thesis
  proof (cases "c0 m \<noteq> None \<or> (\<exists>a'. (a', m) \<in> set rs \<and> c0 a' \<noteq> None)")
    case True
    then have "merged c0 rs m
        = Some (\<lambda>d. series_of (c0 m) d + (\<Sum>a'\<in>{a'. (a', m) \<in> set rs}. series_of (c0 a') d))"
      unfolding merged_def by simp
    then show ?thesis unfolding new_val by (simp add: fun_eq_iff)
  next
    case False
    then have none: "merged c0 rs m = None"
      unfolding merged_def by simp
    from False have "c0 m = None" and "\<And>a'. (a', m) \<in> set rs \<Longrightarrow> c0 a' = None"
      by auto
    then have "series_of (c0 m) d = 0"
      and "(\<Sum>a'\<in>{a'. (a', m) \<in> set rs}. series_of (c0 a') d) = 0" for d
      by (simp_all add: series_of_def)
    then show ?thesis unfolding new_val none by simp
  qed
qed

lemma consistent_rulesD:
  assumes "consistent_rules rules" and "(a, m) \<in> set rules"
  shows "(x, a) \<notin> set rules" and "(a, m') \<in> set rules \<Longrightarrow> m' = m"
proof -
  from assms have 1: "a \<notin> snd ` set rules"
    and 2: "\<forall>(a', m')\<in>set rules. a' = a \<longrightarrow> m' = m"
    unfolding consistent_rules_def by fast+
  from 1 show "(x, a) \<notin> set rules" by force
  from 2 show "(a, m') \<in> set rules \<Longrightarrow> m' = m" by fast
qed

lemma consistent_rulesI:
  assumes "\<And>a m x. (a, m) \<in> set rules \<Longrightarrow> (x, a) \<notin> set rules"
    and "\<And>a m m'. (a, m) \<in> set rules \<Longrightarrow> (a, m') \<in> set rules \<Longrightarrow> m' = m"
  shows "consistent_rules rules"
  unfolding consistent_rules_def
proof (intro ballI, clarify, intro conjI)
  fix a m assume am: "(a, m) \<in> set rules"
  show "a \<notin> snd ` set rules"
  proof
    assume "a \<in> snd ` set rules"
    then obtain x where "(x, a) \<in> set rules" by force
    with assms(1) [OF am] show False by simp
  qed
  show "\<forall>(a', m')\<in>set rules. a' = a \<longrightarrow> m' = m"
    using assms(2) [OF am] by fast
qed

lemma consistent_rules_same_set:
  assumes "set rs = set rs'" and "consistent_rules rs"
  shows "consistent_rules rs'"
proof (rule consistent_rulesI)
  fix a m x assume "(a, m) \<in> set rs'"
  then show "(x, a) \<notin> set rs'"
    using consistent_rulesD(1) [OF assms(2), of a m x] assms(1) by simp
next
  fix a m m' assume "(a, m) \<in> set rs'" and "(a, m') \<in> set rs'"
  then show "m' = m"
    using consistent_rulesD(2) [OF assms(2), of a m m'] assms(1) by simp
qed

lemma consistent_rules_butlast:
  assumes "consistent_rules (rs @ [r])"
  shows "consistent_rules rs"
proof (rule consistent_rulesI)
  fix a m x assume "(a, m) \<in> set rs"
  then have "(a, m) \<in> set (rs @ [r])" by simp
  from consistent_rulesD(1) [OF assms this, of x] show "(x, a) \<notin> set rs" by simp
next
  fix a m m' assume "(a, m) \<in> set rs" and "(a, m') \<in> set rs"
  then have "(a, m) \<in> set (rs @ [r])" and "(a, m') \<in> set (rs @ [r])" by simp_all
  from consistent_rulesD(2) [OF assms this] show "m' = m" .
qed

lemma consistent_rules_last:
  assumes "consistent_rules (rs @ [(a, m)])"
  shows "a \<notin> snd ` set rs" and "a \<noteq> m" and "m \<notin> fst ` set rs"
    and "(a, m') \<in> set rs \<Longrightarrow> m' = m"
proof -
  have last: "(a, m) \<in> set (rs @ [(a, m)])" by simp
  have no: "(x, a) \<notin> set (rs @ [(a, m)])" for x
    by (rule consistent_rulesD(1) [OF assms last])
  show "a \<notin> snd ` set rs"
  proof
    assume "a \<in> snd ` set rs"
    then obtain x where "(x, a) \<in> set rs" by force
    with no [of x] show False by simp
  qed
  show "a \<noteq> m" using no [of a] by auto
  show "m \<notin> fst ` set rs"
  proof
    assume "m \<in> fst ` set rs"
    then obtain x where "(m, x) \<in> set rs" by force
    then have "(m, x) \<in> set (rs @ [(a, m)])" by simp
    from consistent_rulesD(1) [OF assms this, of a] show False by simp
  qed
  show "(a, m') \<in> set rs \<Longrightarrow> m' = m"
    using consistent_rulesD(2) [OF assms last, of m'] by simp
qed

lemma fold_into_None: "cols a = None \<Longrightarrow> fold_into cols (a, m) = cols"
  by (simp add: fold_into_def)

lemma fold_into_Some:
  "cols a = Some s \<Longrightarrow>
   fold_into cols (a, m) k
     = (if k = a then None
        else if k = m then Some (case cols m of Some t \<Rightarrow> (\<lambda>d. t d + s d) | None \<Rightarrow> s)
        else cols k)"
  by (simp add: fold_into_def)

lemma foldl_fold_into_consistent:
  "consistent_rules rs \<Longrightarrow>
   foldl fold_into c0 rs k = (if k \<in> fst ` set rs then None else merged c0 rs k)"
proof (induction rs arbitrary: k rule: rev_induct)
  case Nil
  show ?case by (simp add: merged_no_rule)
next
  case (snoc r rs)
  obtain a m where r: "r = (a, m)" by (cases r)
  let ?c = "foldl fold_into c0 rs"
  have cons': "consistent_rules (rs @ [(a, m)])"
    using snoc.prems by (simp add: r)
  have cons: "consistent_rules rs"
    using snoc.prems by (rule consistent_rules_butlast)
  note IH = snoc.IH [OF cons]
  note a_main = consistent_rules_last(1) [OF cons']
    and am = consistent_rules_last(2) [OF cons']
    and m_free = consistent_rules_last(3) [OF cons']
    and single = consistent_rules_last(4) [OF cons']
  have step: "foldl fold_into c0 (rs @ [r]) k = fold_into ?c (a, m) k"
    by (simp add: r)
  have fsts: "(k \<in> fst ` set (rs @ [r])) = (k = a \<or> k \<in> fst ` set rs)"
    by (simp add: r)
  show ?case
  proof (cases "a \<in> fst ` set rs")
    case True
    then obtain m' where "(a, m') \<in> set rs" by force
    with single [of m'] have mem: "(a, m) \<in> set rs" by simp
    then have "set (rs @ [(a, m)]) = set rs" by auto
    then have same: "merged c0 (rs @ [(a, m)]) = merged c0 rs"
      by (rule merged_same_set)
    have "?c a = None" using IH [of a] True by simp
    then have "fold_into ?c (a, m) = ?c" by (rule fold_into_None)
    then show ?thesis
      unfolding step fsts using IH [of k] True same by (simp add: r)
  next
    case False
    have ca: "?c a = c0 a"
      using IH [of a] False by (simp add: merged_no_rule [OF a_main])
    show ?thesis
    proof (cases "c0 a")
      case None
      then have "fold_into ?c (a, m) = ?c" using ca by (simp add: fold_into_None)
      moreover have "merged c0 (rs @ [(a, m)]) k = merged c0 rs k"
        using None merged_snoc_absent [of c0 a rs m k] by simp
      moreover have "k = a \<Longrightarrow> merged c0 rs k = None"
        using None by (simp add: merged_no_rule [OF a_main])
      ultimately show ?thesis
        unfolding step fsts using IH [of k] by (simp add: r)
    next
      case (Some s)
      have ca': "?c a = Some s" using ca Some by simp
      have cm: "?c m = merged c0 rs m"
        using IH [of m] m_free by simp
      have fold: "fold_into ?c (a, m) k
          = (if k = a then None
             else if k = m then Some (case ?c m of Some t \<Rightarrow> (\<lambda>d. t d + s d) | None \<Rightarrow> s)
             else ?c k)"
        using ca' fold_into_Some [of ?c a s m k] by simp
      consider "k = a" | "k = m" | "k \<noteq> a" "k \<noteq> m" by blast
      then show ?thesis
      proof cases
        case 1
        then show ?thesis unfolding step fsts using fold by simp
      next
        case 2
        have "merged c0 (rs @ [(a, m)]) m
            = Some (case merged c0 rs m of Some t \<Rightarrow> (\<lambda>d. t d + s d) | None \<Rightarrow> s)"
          using Some False merged_snoc_present [of c0 a s rs m] by simp
        then show ?thesis
          unfolding step fsts using 2 am m_free cm fold by (simp add: r)
      next
        case 3
        have "merged c0 (rs @ [(a, m)]) k = merged c0 rs k"
          using 3 by (simp add: merged_snoc_other)
        then show ?thesis
          unfolding step fsts using 3 IH [of k] fold by (simp add: r)
      qed
    qed
  qed
qed

lemma set_contributors: "set (contributors rules m) = {a. (a, m) \<in> set rules}"
  by (force simp: contributors_def)

lemma distinct_contributors: "distinct (contributors rules m)"
  by (simp add: contributors_def)

lemma loc_series_of: "loc df d p = series_of (column df p) d"
  by (simp add: loc_def series_of_def split: option.splits)

lemma series_of_merged:
  "series_of (merged c0 rs k) d
     = series_of (c0 k) d + (\<Sum>a\<in>{a. (a, k) \<in> set rs}. series_of (c0 a) d)"
proof (cases "c0 k \<noteq> None \<or> (\<exists>a. (a, k) \<in> set rs \<and> c0 a \<noteq> None)")
  case True
  then show ?thesis by (simp add: merged_def series_of_def)
next
  case False
  then have "c0 k = None" and "\<And>a. (a, k) \<in> set rs \<Longrightarrow> c0 a = None"
    by auto
  then have "series_of (c0 k) d = 0"
    and "(\<Sum>a\<in>{a. (a, k) \<in> set rs}. series_of (c0 a) d) = 0"
    by (simp_all add: series_of_def)
  moreover have "merged c0 rs k = None"
    using False unfolding merged_def by simp
  ultimately show ?thesis by (simp add: series_of_def)
qed

lemma set_rule_pairs:
  "set (one_to_one_df @ many_to_one_pairs many_to_one_df) = set (rule_pairs one_to_one_df many_to_one_df)"
  by (simp add: rule_pairs_def set_many_to_one_pairs)

lemma column_export_consistent:
  assumes "consistent_rules (rule_pairs one_to_one_df many_to_one_df)"
  shows "column (export_to_excel inventory one_to_one_df many_to_one_df excluded_df) k
     = (if k \<in> fst ` set (rule_pairs one_to_one_df many_to_one_df) then None
        else merged (column (exclude inventory excluded_df))
               (rule_pairs one_to_one_df many_to_one_df) k)"
proof -
  let ?seq = "one_to_one_df @ many_to_one_pairs many_to_one_df"
  have set: "set ?seq = set (rule_pairs one_to_one_df many_to_one_df)"
    by (rule set_rule_pairs)
  have "consistent_rules ?seq"
    using set [symmetric] assms by (rule consistent_rules_same_set)
  then have "foldl fold_into (column (exclude inventory excluded_df)) ?seq k
      = (if k \<in> fst ` set ?seq then None
         else merged (column (exclude inventory excluded_df)) ?seq k)"
    by (rule foldl_fold_into_consistent)
  then show ?thesis
    unfolding column_export_to_excel set merged_same_set [OF set] .
qed

text \<open>
  Claim C6, as the code has it. Let the rules be consistent: no part number that is folded
  away (a free or alias part number) is also a main part number, and none is folded into
  two main part numbers. Then for every main part number \<open>m\<close> of the rules, the resolved
  matrix has the column \<open>m\<close> exactly when, after the exclusion step, \<open>m\<close> or one of its free
  and alias part numbers is a column; on every date the column \<open>m\<close> is the sum of the
  columns, as they stand after the exclusion step, of \<open>m\<close> itself (if present) and of its
  free and alias part numbers (those present); and no free or alias part number is a
  column of the resolved matrix.
\<close>

theorem main_column_is_sum:
  assumes "consistent_rules (rule_pairs one_to_one_df many_to_one_df)"
    and "m \<in> snd ` set (rule_pairs one_to_one_df many_to_one_df)"
  shows "(has_column (export_to_excel inventory one_to_one_df many_to_one_df excluded_df) m
        \<longleftrightarrow> has_column (exclude inventory excluded_df) m
            \<or> (\<exists>a\<in>set (contributors (rule_pairs one_to_one_df many_to_one_df) m).
                  has_column (exclude inventory excluded_df) a))
    \<and> (\<forall>d. loc (export_to_excel inventory one_to_one_df many_to_one_df excluded_df) d m
          = expected_main_column (exclude inventory excluded_df)
              (rule_pairs one_to_one_df many_to_one_df) m d)
    \<and> (\<forall>a\<in>fst ` set (rule_pairs one_to_one_df many_to_one_df).
          \<not> has_column (export_to_excel inventory one_to_one_df many_to_one_df excluded_df) a)"
proof -
  let ?rules = "rule_pairs one_to_one_df many_to_one_df"
  let ?base = "exclude inventory excluded_df"
  let ?final = "export_to_excel inventory one_to_one_df many_to_one_df excluded_df"
  note col = column_export_consistent [OF assms(1), of inventory excluded_df]
  obtain x where "(x, m) \<in> set ?rules"
    using assms(2) by force
  have m: "m \<notin> fst ` set ?rules"
  proof
    assume "m \<in> fst ` set ?rules"
    then obtain y where "(m, y) \<in> set ?rules" by force
    from consistent_rulesD(1) [OF assms(1) this, of x] \<open>(x, m) \<in> set ?rules\<close>
    show False by simp
  qed
  have colm: "column ?final m = merged (column ?base) ?rules m"
    using col [of m] m by simp
  have 1: "has_column ?final m
      \<longleftrightarrow> has_column ?base m \<or> (\<exists>a\<in>set (contributors ?rules m). has_column ?base a)"
    unfolding has_column_iff colm set_contributors merged_def by auto
  have sum: "sum_list (map (loc ?base d) (contributors ?rules m))
      = (\<Sum>a\<in>{a. (a, m) \<in> set ?rules}. series_of (column ?base a) d)" for d
    using sum_list_distinct_conv_sum_set [OF distinct_contributors, of "loc ?base d" ?rules m]
    by (simp add: set_contributors loc_series_of)
  have 2: "loc ?final d m = expected_main_column ?base ?rules m d" for d
    unfolding expected_main_column_def sum
    by (simp add: loc_series_of colm series_of_merged)
  have 3: "\<not> has_column ?final a" if "a \<in> fst ` set ?rules" for a
    using col [of a] that by (simp add: has_column_iff)
  from 1 2 3 show ?thesis by blast
qed

theorem main_column_is_sum_witness:
  "consistent_rules (rule_pairs [(''A'', ''M'')] [(''M'', ''B''), (''M'', ''C'')])
   \<and> ''M'' \<in> snd ` set (rule_pairs [(''A'', ''M'')] [(''M'', ''B''), (''M'', ''C'')])
   \<and> has_column (export_to_excel matrix0 [(''A'', ''M'')] [(''M'', ''B''), (''M'', ''C'')] [Some ''C'']) ''M''
   \<and> loc (export_to_excel matrix0 [(''A'', ''M'')] [(''M'', ''B''), (''M'', ''C'')] [Some ''C''])
         739921 ''M'' = 11
   \<and> \<not> has_column (export_to_excel matrix0 [(''A'', ''M'')] [(''M'', ''B''), (''M'', ''C'')] [Some ''C'']) ''A''
   \<and> \<not> has_column (export_to_excel matrix0 [(''A'', ''M'')] [(''M'', ''B''), (''M'', ''C'')] [Some ''C'']) ''B''"
proof -
  have c: "consistent_rules (rule_pairs [(''A'', ''M'')] [(''M'', ''B''), (''M'', ''C'')])"
    by (simp add: consistent_rules_def rule_pairs_def)
  have m: "''M'' \<in> snd ` set (rule_pairs [(''A'', ''M'')] [(''M'', ''B''), (''M'', ''C'')])"
    by (simp add: rule_pairs_def)
  have cs: "contributors (rule_pairs [(''A'', ''M'')] [(''M'', ''B''), (''M'', ''C'')]) ''M''
      = [''A'', ''B'', ''C'']"
    by (simp add: contributors_def rule_pairs_def)
  have base: "column (exclude matrix0 [Some ''C'']) q
      = (if q = ''A'' then Some (\<lambda>_. 1) else if q = ''B'' then Some (\<lambda>_. 10) else None)" for q
    by (simp add: column_exclude excluded_parts_def column_matrix0)
  have fsts: "fst ` set (rule_pairs [(''A'', ''M'')] [(''M'', ''B''), (''M'', ''C'')])
      = {''A'', ''B'', ''C''}"
    by (simp add: rule_pairs_def)
  show ?thesis
    using main_column_is_sum [OF c m, of matrix0 "[Some ''C'']"] c m
    unfolding cs fsts expected_main_column_def
    by (simp add: loc_def has_column_iff base)
qed

text \<open>
  Claim C6 as stated fails in three ways. With the one-to-one rules \<open>(B, C)\<close> then \<open>(A, B)\<close>
  the column \<open>B\<close> is folded into \<open>C\<close>, then \<open>A\<close> is renamed to \<open>B\<close>: the resolved column \<open>B\<close> is 1,
  not 10 + 1, and \<open>B\<close>, folded into \<open>C\<close>, is still a column. With \<open>C\<close> excluded and the rule
  \<open>(A, C)\<close> the resolved column \<open>C\<close> is 1, not 100 + 1. With \<open>A\<close> free for \<open>B\<close> and alias of
  \<open>C\<close>, the column \<open>C\<close> stays 100, not 100 + 1.
\<close>

theorem main_column_is_sum_counterexample:
  "loc (export_to_excel matrix0 [(''B'', ''C''), (''A'', ''B'')] [] []) 739921 ''B'' = 1
   \<and> expected_main_column matrix0 (rule_pairs [(''B'', ''C''), (''A'', ''B'')] []) ''B'' 739921 = 11
   \<and> ''B'' \<in> set (contributors (rule_pairs [(''B'', ''C''), (''A'', ''B'')] []) ''C'')
   \<and> has_column (export_to_excel matrix0 [(''B'', ''C''), (''A'', ''B'')] [] []) ''B''
   \<and> loc (export_to_excel matrix0 [(''A'', ''C'')] [] [Some ''C'']) 739921 ''C'' = 1
   \<and> expected_main_column matrix0 (rule_pairs [(''A'', ''C'')] []) ''C'' 739921 = 101
   \<and> loc (export_to_excel matrix0 [(''A'', ''B'')] [(''C'', ''A'')] []) 739921 ''C'' = 100
   \<and> expected_main_column matrix0 (rule_pairs [(''A'', ''B'')] [(''C'', ''A'')]) ''C'' 739921 = 101"
proof -
  have 1: "column (export_to_excel matrix0 [(''B'', ''C''), (''A'', ''B'')] [] []) ''B'' = Some (\<lambda>_. 1)"
    by (simp add: column_export_to_excel column_exclude excluded_parts_def
        fold_into_def column_matrix0)
  have 2: "column (export_to_excel matrix0 [(''A'', ''B'')] [(''C'', ''A'')] []) ''C'' = Some (\<lambda>_. 100)"
    by (simp add: column_export_to_excel column_exclude excluded_parts_def
        many_to_one_pairs_def groupby_def fold_into_def column_matrix0)
  have e: "expected_main_column matrix0 (rule_pairs [(''B'', ''C''), (''A'', ''B'')] []) ''B'' 739921 = 11"
    "''B'' \<in> set (contributors (rule_pairs [(''B'', ''C''), (''A'', ''B'')] []) ''C'')"
    "expected_main_column matrix0 (rule_pairs [(''A'', ''C'')] []) ''C'' 739921 = 101"
    "expected_main_column matrix0 (rule_pairs [(''A'', ''B'')] [(''C'', ''A'')]) ''C'' 739921 = 101"
    by (simp_all add: expected_main_column_def contributors_def rule_pairs_def loc_def column_matrix0)
  show ?thesis
    using e by (simp add: loc_def has_column_iff 1 2 export_Z_example)
qed

end
